theory Spec2Isabelle
  imports Main "HOL-Library.Char_ord" "HOL-Library.List_Lexorder"
begin

section \<open>Text primitives\<close>

text \<open>
  A Python \<open>str\<close> is modelled as a \<open>string\<close>: each \<open>char\<close> stands for the code point of
  the same number, so the model covers texts over the code points 0..255. The character
  classes below are those of Python 3 on that range.
\<close>

definition code_point :: "char \<Rightarrow> nat" where
  "code_point c = of_char c"

definition isspace :: "char \<Rightarrow> bool" where
  \<comment> \<open>\<open>str.isspace\<close>, the set \<open>str.strip()\<close> removes and \<open>\s\<close> matches\<close>
  "isspace c = (let n = code_point c in
     (9 \<le> n \<and> n \<le> 13) \<or> (28 \<le> n \<and> n \<le> 32) \<or> n = 133 \<or> n = 160)"

definition isdecimal :: "char \<Rightarrow> bool" where
  \<comment> \<open>\<open>\d\<close>: the decimal digits\<close>
  "isdecimal c = (let n = code_point c in 48 \<le> n \<and> n \<le> 57)"

definition isword :: "char \<Rightarrow> bool" where
  \<comment> \<open>\<open>\w\<close>: alphanumeric (letters, digits, numeric characters) or underscore\<close>
  "isword c = (let n = code_point c in
     (48 \<le> n \<and> n \<le> 57) \<or> (65 \<le> n \<and> n \<le> 90) \<or> n = 95 \<or> (97 \<le> n \<and> n \<le> 122) \<or>
     n = 170 \<or> n = 178 \<or> n = 179 \<or> n = 181 \<or> n = 185 \<or> n = 186 \<or>
     (188 \<le> n \<and> n \<le> 190) \<or> (192 \<le> n \<and> n \<le> 214) \<or> (216 \<le> n \<and> n \<le> 246) \<or>
     (248 \<le> n \<and> n \<le> 255))"

definition strip :: "string \<Rightarrow> string" where
  "strip s = rev (dropWhile isspace (rev (dropWhile isspace s)))"

fun startswith :: "string \<Rightarrow> string \<Rightarrow> bool" where
  \<comment> \<open>\<open>startswith p s\<close> is \<open>s.startswith(p)\<close>\<close>
  "startswith [] s = True"
| "startswith (p # ps) [] = False"
| "startswith (p # ps) (c # cs) = (p = c \<and> startswith ps cs)"

fun contains :: "string \<Rightarrow> string \<Rightarrow> bool" where
  \<comment> \<open>\<open>contains sub s\<close> is \<open>sub in s\<close>\<close>
  "contains sub [] = (sub = [])"
| "contains sub (c # cs) = (startswith sub (c # cs) \<or> contains sub cs)"

fun split_chr :: "char \<Rightarrow> string \<Rightarrow> string list" where
  \<comment> \<open>\<open>s.split(sep)\<close> for a one-character separator: never empty\<close>
  "split_chr sep [] = [[]]"
| "split_chr sep (c # cs) =
     (if c = sep then [] # split_chr sep cs
      else (case split_chr sep cs of
              [] \<Rightarrow> [[c]]
            | y # ys \<Rightarrow> (c # y) # ys))"

definition count_chr :: "char \<Rightarrow> string \<Rightarrow> int" where
  "count_chr c s = int (length (filter (\<lambda>x. x = c) s))"

fun join :: "string \<Rightarrow> string list \<Rightarrow> string" where
  \<comment> \<open>\<open>join sep xs\<close> is \<open>sep.join(xs)\<close>\<close>
  "join sep [] = []"
| "join sep [x] = x"
| "join sep (x # y # ys) = x @ sep @ join sep (y # ys)"

definition NL :: string where
  "NL = [CHR 0x0A]"

section \<open>Regular expressions\<close>

text \<open>
  The patterns of the source are sequences of literals, greedy repetitions of a character
  class, alternatives of literals, capture groups and one optional group. The matcher
  is a backtracking one: it lists every way a pattern matches at the start of a text, in
  the order in which Python's engine tries them (greedy: longest repetition first; an
  optional group is tried before it is skipped), and the match Python reports is the first.
\<close>

datatype cls = Space | Word | Digit | Cmp | Num

fun in_cls :: "cls \<Rightarrow> char \<Rightarrow> bool" where
  "in_cls Space c = isspace c"
| "in_cls Word c = isword c"
| "in_cls Digit c = isdecimal c"
| "in_cls Cmp c = (c = CHR ''<'' \<or> c = CHR ''>'' \<or> c = CHR ''='' \<or> c = CHR ''!'')"
| "in_cls Num c = (isdecimal c \<or> c = CHR ''.'')"

datatype item =
    Lit string
  | Plus cls
  | Star cls
  | Alt "string list"
  | Cap "item list"
  | Opt "item list"

fun ngroups :: "item \<Rightarrow> nat" where
  "ngroups (Cap its) = Suc (sum_list (map ngroups its))"
| "ngroups (Opt its) = sum_list (map ngroups its)"
| "ngroups _ = 0"

fun runs :: "cls \<Rightarrow> string \<Rightarrow> string list" where
  \<comment> \<open>what is left of the text after one or more characters of the class, longest run first\<close>
  "runs c [] = []"
| "runs c (x # xs) = (if in_cls c x then runs c xs @ [xs] else [])"

type_synonym groups = "string option list"

fun match_item :: "item \<Rightarrow> string \<Rightarrow> (groups \<times> string) list"
and match_seq :: "item list \<Rightarrow> string \<Rightarrow> (groups \<times> string) list" where
  "match_item (Lit l) s = (if startswith l s then [([], drop (length l) s)] else [])"
| "match_item (Plus c) s = map (\<lambda>r. ([], r)) (runs c s)"
| "match_item (Star c) s = map (\<lambda>r. ([], r)) (runs c s @ [s])"
| "match_item (Alt ls) s =
     concat (map (\<lambda>l. if startswith l s then [([], drop (length l) s)] else []) ls)"
| "match_item (Cap its) s =
     map (\<lambda>(g, r). (Some (take (length s - length r) s) # g, r)) (match_seq its s)"
| "match_item (Opt its) s =
     match_seq its s @ [(replicate (sum_list (map ngroups its)) None, s)]"
| "match_seq [] s = [([], s)]"
| "match_seq (i # its) s =
     concat (map (\<lambda>(g1, r1). map (\<lambda>(g2, r2). (g1 @ g2, r2)) (match_seq its r1))
                 (match_item i s))"

definition re_match :: "item list \<Rightarrow> string \<Rightarrow> groups option" where
  \<comment> \<open>\<open>re.match\<close>: the groups of the first match at the start of the text\<close>
  "re_match pat s = (case match_seq pat s of [] \<Rightarrow> None | (g, r) # _ \<Rightarrow> Some g)"

fun re_search :: "item list \<Rightarrow> string \<Rightarrow> groups option" where
  \<comment> \<open>\<open>re.search\<close>: the first match at the leftmost position that has one\<close>
  "re_search pat [] = re_match pat []"
| "re_search pat (c # cs) =
     (case re_match pat (c # cs) of Some g \<Rightarrow> Some g | None \<Rightarrow> re_search pat cs)"

section \<open>Numbers\<close>

text \<open>
  A Python \<open>float\<close> is an IEEE binary64 number. A finite one is modelled by its exact
  value, the fraction \<open>Fin n d\<close> = n / d in lowest terms with d a power of two; every
  operation computes exactly and rounds to the nearest representable value, ties to even.
  Signed zero is not distinguished: the values the translator parses carry no sign, and the
  comparator only subtracts, rounds and compares.
\<close>

datatype pyfloat = Fin int int | PInf | NInf | NaN

datatype py_error = ValueError | FileNotFoundError | OSError

type_synonym frac = "int \<times> int"

definition normalize :: "frac \<Rightarrow> frac" where
  "normalize f = (case f of (n, d) \<Rightarrow> let g = gcd n d in (n div g, d div g))"

definition scale2 :: "frac \<Rightarrow> int \<Rightarrow> frac" where
  \<comment> \<open>\<open>f * 2 ^ e\<close>\<close>
  "scale2 f e = (case f of (n, d) \<Rightarrow>
     if 0 \<le> e then (n * 2 ^ nat e, d) else (n, d * 2 ^ nat (- e)))"

definition scale10 :: "frac \<Rightarrow> int \<Rightarrow> frac" where
  \<comment> \<open>\<open>f * 10 ^ e\<close>\<close>
  "scale10 f e = (case f of (n, d) \<Rightarrow>
     if 0 \<le> e then (n * 10 ^ nat e, d) else (n, d * 10 ^ nat (- e)))"

definition round_half_even :: "frac \<Rightarrow> int" where
  "round_half_even f = (case f of (n, d) \<Rightarrow>
     let q = n div d; r = n mod d in
     if 2 * r < d then q else if d < 2 * r then q + 1 else if even q then q else q + 1)"

function bit_length :: "int \<Rightarrow> int" where
  \<comment> \<open>the number of binary digits of a positive integer\<close>
  "bit_length n = (if n \<le> 0 then 0 else 1 + bit_length (n div 2))"
  by pat_completeness auto
termination
  by (relation "measure nat") auto

declare bit_length.simps [simp del]

function dec_length :: "int \<Rightarrow> int" where
  \<comment> \<open>the number of decimal digits of a non-negative integer\<close>
  "dec_length n = (if n < 10 then 1 else 1 + dec_length (n div 10))"
  by pat_completeness auto
termination
  by (relation "measure nat") auto

declare dec_length.simps [simp del]

definition round_pos :: "frac \<Rightarrow> pyfloat" where
  \<comment> \<open>the binary64 nearest to a positive fraction: 53 significant bits, the exponent of
      the last bit at least -1074, overflow to infinity from \<open>2 ^ 1024\<close>\<close>
  "round_pos f = (case f of (n, d) \<Rightarrow>
     let k = bit_length n - bit_length d;
         fl = (case scale2 f (- k) of (n', d') \<Rightarrow> if d' \<le> n' then k else k - 1);
         e = max (fl - 52) (- 1074);
         m = round_half_even (scale2 f (- e))
     in if 1024 < bit_length m + e then PInf
        else (case normalize (scale2 (m, 1) e) of (a, b) \<Rightarrow> Fin a b))"

definition fl_round :: "frac \<Rightarrow> pyfloat" where
  \<comment> \<open>round a fraction with positive denominator to binary64\<close>
  "fl_round f = (case f of (n, d) \<Rightarrow>
     if n = 0 then Fin 0 1
     else if 0 < n then round_pos (n, d)
     else (case round_pos (- n, d) of Fin a b \<Rightarrow> Fin (- a) b | _ \<Rightarrow> NInf))"

definition digit_val :: "char \<Rightarrow> int" where
  "digit_val c = int (code_point c) - 48"

definition int_of_digits :: "string \<Rightarrow> int" where
  "int_of_digits s = foldl (\<lambda>a c. 10 * a + digit_val c) 0 s"

definition py_float :: "string \<Rightarrow> py_error + pyfloat" where
  \<comment> \<open>\<open>float(tok)\<close> for a token of digits and dots, which is what the value patterns
      capture: a \<open>ValueError\<close> unless the token has a digit and at most one dot\<close>
  "py_float tok =
     (if (\<forall>c \<in> set tok. isdecimal c \<or> c = CHR ''.'') \<and> (\<exists>c \<in> set tok. isdecimal c) \<and>
         count_chr (CHR ''.'') tok \<le> 1
      then Inr (fl_round (int_of_digits (filter isdecimal tok),
                          10 ^ length (filter isdecimal (dropWhile isdecimal tok))))
      else Inl ValueError)"

definition py_int :: "string \<Rightarrow> py_error + int" where
  \<comment> \<open>\<open>int(tok)\<close> for a non-empty token of decimal digits, as \<open>\d+\<close> captures: a
      \<open>ValueError\<close> when the token has more than 4300 digits (the default limit of
      CPython 3.11 and later on the conversion of a digit string; leading zeros count)\<close>
  "py_int tok = (if 4300 < length tok then Inl ValueError else Inr (int_of_digits tok))"

function str_nat :: "int \<Rightarrow> string" where
  \<comment> \<open>the decimal digits of a non-negative integer\<close>
  "str_nat n = (if n < 10 then [char_of (48 + n)]
                else str_nat (n div 10) @ [char_of (48 + n mod 10)])"
  by pat_completeness auto
termination
  by (relation "measure nat") auto

declare str_nat.simps [simp del]

definition str_int :: "int \<Rightarrow> string" where
  \<comment> \<open>\<open>str(i)\<close> of an integer\<close>
  "str_int i = (if i < 0 then ''-'' @ str_nat (- i) else str_nat i)"

fun shortest :: "nat \<Rightarrow> nat \<Rightarrow> frac \<Rightarrow> int \<Rightarrow> int \<times> int" where
  \<comment> \<open>\<open>shortest fuel nd v x\<close>: the integer \<open>c\<close> and exponent \<open>p\<close> of the decimal \<open>c * 10 ^ p\<close>
      with the fewest significant digits (at least \<open>nd\<close>) that rounds to the float \<open>v\<close>,
      the nearest to \<open>v\<close> if there are two; \<open>x\<close> is the exponent of the first digit of \<open>v\<close>.
      Seventeen digits always suffice for a binary64.\<close>
  "shortest 0 nd v x =
     (let p = x - int nd + 1 in (round_half_even (scale10 v (- p)), p))"
| "shortest (Suc fuel) nd v x =
     (let p = x - int nd + 1;
          t = scale10 v (- p);
          lo = fst t div snd t;
          hi = lo + 1;
          ok_lo = (fl_round (scale10 (lo, 1) p) = Fin (fst v) (snd v));
          ok_hi = (fl_round (scale10 (hi, 1) p) = Fin (fst v) (snd v));
          near_lo = (2 * (fst t mod snd t) \<le> snd t)
      in if ok_lo \<and> (near_lo \<or> \<not> ok_hi) then (lo, p)
         else if ok_hi then (hi, p)
         else shortest fuel (Suc nd) v x)"

fun strip_zeros :: "nat \<Rightarrow> int \<times> int \<Rightarrow> int \<times> int" where
  \<comment> \<open>drop trailing decimal zeros of \<open>c\<close> in \<open>c * 10 ^ p\<close>\<close>
  "strip_zeros 0 cp = cp"
| "strip_zeros (Suc fuel) (c, p) =
     (if c \<noteq> 0 \<and> c mod 10 = 0 then strip_zeros fuel (c div 10, p + 1) else (c, p))"

definition repr_pos :: "frac \<Rightarrow> string" where
  \<comment> \<open>\<open>repr\<close> of a positive finite float: the shortest digits that read back as the same
      float; exponent notation when the decimal point falls before the fourth leading
      zero or after the sixteenth digit\<close>
  "repr_pos v = (case v of (n, d) \<Rightarrow>
     let dl = dec_length n - dec_length d;
         x = (case scale10 v (- dl) of (n', d') \<Rightarrow> if d' \<le> n' then dl else dl - 1)
     in case strip_zeros 17 (shortest 16 1 v x) of (c, p) \<Rightarrow>
       let ds = str_nat c;
           decpt = int (length ds) + p
       in if decpt \<le> - 4 \<or> 16 < decpt then
            take 1 ds @ (if 1 < length ds then ''.'' @ drop 1 ds else [])
            @ ''e'' @ (if decpt - 1 < 0 then ''-'' else ''+'')
            @ (if \<bar>decpt - 1\<bar> < 10 then ''0'' else []) @ str_nat \<bar>decpt - 1\<bar>
          else if decpt \<le> 0 then ''0.'' @ replicate (nat (- decpt)) (CHR ''0'') @ ds
          else if int (length ds) \<le> decpt then
            ds @ replicate (nat (decpt - int (length ds))) (CHR ''0'') @ ''.0''
          else take (nat decpt) ds @ ''.'' @ drop (nat decpt) ds)"

definition float_repr :: "pyfloat \<Rightarrow> string" where
  \<comment> \<open>\<open>repr(x)\<close>, which is also what an f-string writes for a float\<close>
  "float_repr x = (case x of
       PInf \<Rightarrow> ''inf'' | NInf \<Rightarrow> ''-inf'' | NaN \<Rightarrow> ''nan''
     | Fin n d \<Rightarrow> if n = 0 then ''0.0''
                  else if 0 < n then repr_pos (n, d) else ''-'' @ repr_pos (- n, d))"

section \<open>Intermediate representation\<close>

record LayerDef =
  name :: string
  gds_layer :: int
  gds_datatype :: int

datatype node =
    WidthCheck (rule_name: string) (layer: string) (operator: string)
      (value_of: pyfloat) (comment: "string option")
  | SpacingCheck (rule_name: string) (layer: string) (operator: string)
      (value_of: pyfloat) (comment: "string option")
  | EnclosureCheck (rule_name: string) (outer_layer: string) (inner_layer: string)
      (operator: string) (value_of: pyfloat) (comment: "string option")
  | BooleanOp (result_name: string) (operation: string) (layer1: string)
      (layer2: "string option") (comment: "string option")

definition DQ :: string where
  \<comment> \<open>the double quote\<close>
  "DQ = [CHR 0x22]"

definition truthy :: "string option \<Rightarrow> bool" where
  \<comment> \<open>\<open>if x:\<close> for an optional string: neither \<open>None\<close> nor empty\<close>
  "truthy x = (case x of None \<Rightarrow> False | Some s \<Rightarrow> s \<noteq> [])"

definition comment_lines :: "string option \<Rightarrow> string list" where
  "comment_lines c = (if truthy c then [''// '' @ the c] else [])"

definition LayerDef_to_pxl :: "LayerDef \<Rightarrow> string" where
  "LayerDef_to_pxl l =
     name l @ '' = layer('' @ str_int (gds_layer l) @ '', '' @ str_int (gds_datatype l) @ '');''"

definition upper :: "string \<Rightarrow> string" where
  \<comment> \<open>\<open>str.upper()\<close> on the letters a..z; no other character of the range becomes one
      of the letters of AND, OR, NOT, so the lookup below is decided by these alone\<close>
  "upper s = map (\<lambda>c. if 97 \<le> code_point c \<and> code_point c \<le> 122
                        then char_of (code_point c - 32) else c) s"

definition op_map_get :: "string \<Rightarrow> string" where
  \<comment> \<open>\<open>op_map.get(k, 'and')\<close>\<close>
  "op_map_get k = (if k = ''AND'' then ''and'' else if k = ''OR'' then ''or''
                   else if k = ''NOT'' then ''not'' else ''and'')"

fun to_pxl :: "node \<Rightarrow> string" where
  "to_pxl (WidthCheck rn l opr v c) =
     (let violation_var = rn @ ''_violations'' in
      join NL (comment_lines c @
        [violation_var @ '' = width('' @ l @ '') '' @ opr @ '' '' @ float_repr v @ '';'',
         ''drc_deck('' @ violation_var @ '', '' @ DQ @ rn @ DQ @ '', '' @
         DQ @ ''Width violation: '' @ opr @ '' '' @ float_repr v @ ''um'' @ DQ @ '');'']))"
| "to_pxl (SpacingCheck rn l opr v c) =
     (let violation_var = rn @ ''_violations'' in
      join NL (comment_lines c @
        [violation_var @ '' = external_distance('' @ l @ '', '' @ l @ '') ''
         @ opr @ '' '' @ float_repr v @ '';'',
         ''drc_deck('' @ violation_var @ '', '' @ DQ @ rn @ DQ @ '', '' @
         DQ @ ''Spacing violation: '' @ opr @ '' '' @ float_repr v @ ''um'' @ DQ @ '');'']))"
| "to_pxl (EnclosureCheck rn outer inner opr v c) =
     (let violation_var = rn @ ''_violations'' in
      join NL (comment_lines c @
        [violation_var @ '' = external_enclosure('' @ outer @ '', '' @ inner @ '') ''
         @ opr @ '' '' @ float_repr v @ '';'',
         ''drc_deck('' @ violation_var @ '', '' @ DQ @ rn @ DQ @ '', '' @
         DQ @ ''Enclosure violation: '' @ opr @ '' '' @ float_repr v @ ''um'' @ DQ @ '');'']))"
| "to_pxl (BooleanOp res opn l1 l2 c) =
     (let pxl_op = op_map_get (upper opn) in
      join NL (comment_lines c @
        [if truthy l2 then res @ '' = '' @ l1 @ '' '' @ pxl_op @ '' '' @ the l2 @ '';''
         else res @ '' = '' @ pxl_op @ '' '' @ l1 @ '';'']))"

section \<open>The SVRF parser\<close>

record parser =
  layers :: "(string \<times> LayerDef) list"
  rules :: "node list"
  current_rule_name :: "string option"

definition init_parser :: parser where
  "init_parser = \<lparr>layers = [], rules = [], current_rule_name = None\<rparr>"

fun dict_set :: "'k \<Rightarrow> 'v \<Rightarrow> ('k \<times> 'v) list \<Rightarrow> ('k \<times> 'v) list" where
  \<comment> \<open>\<open>d[k] = v\<close> on an insertion-ordered dictionary: a key already present keeps its
      place, a new key goes last\<close>
  "dict_set k v [] = [(k, v)]"
| "dict_set k v ((k', v') # d) =
     (if k = k' then (k, v) # d else (k', v') # dict_set k v d)"

definition LAYER_RE :: "item list" where
  \<comment> \<open>\<open>LAYER\s+(\w+)\s+(\d+)(?:\s+(\d+))?\<close>\<close>
  "LAYER_RE = [Lit ''LAYER'', Plus Space, Cap [Plus Word], Plus Space, Cap [Plus Digit],
               Opt [Plus Space, Cap [Plus Digit]]]"

definition WIDTH_RE :: "item list" where
  \<comment> \<open>\<open>WIDTH\s+(\w+)\s*([<>=!]+)\s*([\d.]+)\<close>\<close>
  "WIDTH_RE = [Lit ''WIDTH'', Plus Space, Cap [Plus Word], Star Space, Cap [Plus Cmp],
               Star Space, Cap [Plus Num]]"

definition EXTERNAL_RE :: "item list" where
  \<comment> \<open>\<open>EXTERNAL\s+(\w+)\s*([<>=!]+)\s*([\d.]+)\<close>\<close>
  "EXTERNAL_RE = [Lit ''EXTERNAL'', Plus Space, Cap [Plus Word], Star Space, Cap [Plus Cmp],
                  Star Space, Cap [Plus Num]]"

definition INTERNAL_RE :: "item list" where
  \<comment> \<open>\<open>INTERNAL\s+(\w+)\s*([<>=!]+)\s*([\d.]+)\<close>\<close>
  "INTERNAL_RE = [Lit ''INTERNAL'', Plus Space, Cap [Plus Word], Star Space, Cap [Plus Cmp],
                  Star Space, Cap [Plus Num]]"

definition ENC_RE :: "item list" where
  \<comment> \<open>\<open>ENC\s+(\w+)\s+(\w+)\s*([<>=!]+)\s*([\d.]+)\<close>\<close>
  "ENC_RE = [Lit ''ENC'', Plus Space, Cap [Plus Word], Plus Space, Cap [Plus Word],
             Star Space, Cap [Plus Cmp], Star Space, Cap [Plus Num]]"

definition ASSIGN_RE :: "item list" where
  \<comment> \<open>\<open>(\w+)\s*=\s*(AND|OR|NOT)\s+(\w+)(?:\s+(\w+))?\<close>\<close>
  "ASSIGN_RE = [Cap [Plus Word], Star Space, Lit ''='', Star Space,
                Cap [Alt [''AND'', ''OR'', ''NOT'']], Plus Space, Cap [Plus Word],
                Opt [Plus Space, Cap [Plus Word]]]"

definition parse_layer :: "string \<Rightarrow> parser \<Rightarrow> py_error + parser" where
  "parse_layer line p =
     (case re_match LAYER_RE line of
        Some [Some nm, Some l, g3] \<Rightarrow>
          (case py_int l of
             Inl e \<Rightarrow> Inl e
           | Inr gl \<Rightarrow>
               (case (if truthy g3 then py_int (the g3) else Inr 0) of
                  Inl e \<Rightarrow> Inl e
                | Inr gd \<Rightarrow>
                    Inr (p\<lparr>layers := dict_set nm
                              \<lparr>name = nm, gds_layer = gl, gds_datatype = gd\<rparr>
                              (layers p)\<rparr>)))
      | _ \<Rightarrow> Inr p)"

definition append_rule :: "node \<Rightarrow> parser \<Rightarrow> parser" where
  \<comment> \<open>\<open>self.rules.append(r)\<close>\<close>
  "append_rule r p = p\<lparr>rules := rules p @ [r]\<rparr>"

definition parse_rule_block ::
  "string \<Rightarrow> string \<Rightarrow> string option \<Rightarrow> parser \<Rightarrow> py_error + parser" where
  "parse_rule_block rn block c p =
     (if contains ''WIDTH'' block then
        (case re_search WIDTH_RE block of
           Some [Some l, Some opr, Some v] \<Rightarrow>
             (case py_float v of
                Inl e \<Rightarrow> Inl e
              | Inr x \<Rightarrow> Inr (append_rule (WidthCheck rn l opr x c) p))
         | _ \<Rightarrow> Inr p)
      else if contains ''EXTERNAL'' block then
        (case re_search EXTERNAL_RE block of
           Some [Some l, Some opr, Some v] \<Rightarrow>
             (case py_float v of
                Inl e \<Rightarrow> Inl e
              | Inr x \<Rightarrow> Inr (append_rule (SpacingCheck rn l opr x c) p))
         | _ \<Rightarrow> Inr p)
      else if contains ''INTERNAL'' block then
        (case re_search INTERNAL_RE block of
           Some [Some l, Some opr, Some v] \<Rightarrow>
             (case py_float v of
                Inl e \<Rightarrow> Inl e
              | Inr x \<Rightarrow> Inr (append_rule (SpacingCheck rn l opr x c) p))
         | _ \<Rightarrow> Inr p)
      else if contains ''ENC'' block then
        (case re_search ENC_RE block of
           Some [Some outer, Some inner, Some opr, Some v] \<Rightarrow>
             (case py_float v of
                Inl e \<Rightarrow> Inl e
              | Inr x \<Rightarrow> Inr (append_rule (EnclosureCheck rn outer inner opr x c) p))
         | _ \<Rightarrow> Inr p)
      else Inr p)"

definition parse_assignment :: "string \<Rightarrow> parser \<Rightarrow> parser" where
  "parse_assignment line p =
     (case re_match ASSIGN_RE line of
        Some [Some res, Some opn, Some l1, l2] \<Rightarrow>
          (let c = (if contains ''@'' line
                    then Some (strip (split_chr (CHR ''@'') line ! 1)) else None)
           in append_rule (BooleanOp res opn l1 l2 c) p)
      | _ \<Rightarrow> p)"

function block_lines :: "string list \<Rightarrow> nat \<Rightarrow> int \<Rightarrow> string list \<Rightarrow> string list \<times> nat" where
  \<comment> \<open>the inner loop of \<open>parse_file\<close>: accumulate lines until the braces balance or the
      input ends; returns \<open>rule_lines\<close> and the new \<open>i\<close>\<close>
  "block_lines lines i brace_count rule_lines =
     (if i < length lines \<and> 0 < brace_count
      then block_lines lines (i + 1)
             (brace_count + (count_chr (CHR ''{'') (lines ! i) - count_chr (CHR ''}'') (lines ! i)))
             (rule_lines @ [lines ! i])
      else (rule_lines, i))"
  by pat_completeness auto
termination
  by (relation "measure (\<lambda>(lines, i, bc, rl). length lines - i)") auto

declare block_lines.simps [simp del]

lemma block_lines_index: "i \<le> snd (block_lines lines i bc rl)"
proof (induction lines i bc rl rule: block_lines.induct)
  case (1 lines i bc rl)
  show ?case
  proof (cases "i < length lines \<and> 0 < bc")
    case True
    then have "i + 1 \<le> snd (block_lines lines i bc rl)"
      using 1 by (subst block_lines.simps) simp
    then show ?thesis
      by simp
  next
    case False
    then have "block_lines lines i bc rl = (rl, i)"
      by (subst block_lines.simps) auto
    then show ?thesis
      by simp
  qed
qed

definition loop_body :: "string list \<Rightarrow> nat \<Rightarrow> parser \<Rightarrow> py_error + nat \<times> parser" where
  \<comment> \<open>one pass through the body of the \<open>while i < len(lines)\<close> loop of \<open>parse_file\<close>, for
      \<open>i < len(lines)\<close>: the new \<open>i\<close> and the parser after it, or the exception raised\<close>
  "loop_body lines i p =
     (let line = strip (lines ! i) in
      if line = [] \<or> startswith ''//'' line then Inr (i + 1, p)
      else if startswith ''LAYER '' line then
        (case parse_layer line p of
           Inl e \<Rightarrow> Inl e
         | Inr p' \<Rightarrow> Inr (i + 1, p'))
      else if contains ''{'' line then
        (let rn = strip (hd (split_chr (CHR ''{'') line));
             c = (if contains ''@'' line
                  then Some (strip (hd (split_chr (CHR ''}'') (split_chr (CHR ''@'') line ! 1))))
                  else None);
             brace_count = count_chr (CHR ''{'') line - count_chr (CHR ''}'') line;
             blk = block_lines lines (i + 1) brace_count [line]
         in case parse_rule_block rn (join NL (fst blk)) c (p\<lparr>current_rule_name := Some rn\<rparr>) of
              Inl e \<Rightarrow> Inl e
            | Inr p' \<Rightarrow> Inr (snd blk, p'))
      else if contains ''='' line \<and> \<not> startswith ''LAYER'' line
        then Inr (i + 1, parse_assignment line p)
      else Inr (i + 1, p))"

lemma loop_body_advances: "loop_body lines i p = Inr (j, p') \<Longrightarrow> i < j"
  using block_lines_index [of "i + 1" lines]
  by (auto simp: loop_body_def Let_def less_eq_Suc_le split: if_splits sum.splits)

function parse_loop :: "string list \<Rightarrow> nat \<Rightarrow> parser \<Rightarrow> py_error + parser" where
  \<comment> \<open>the \<open>while i < len(lines)\<close> loop of \<open>parse_file\<close>\<close>
  "parse_loop lines i p =
     (if i < length lines then
        (case loop_body lines i p of
           Inl e \<Rightarrow> Inl e
         | Inr (j, p') \<Rightarrow> parse_loop lines j p')
      else Inr p)"
  by pat_completeness auto
termination
proof (relation "measure (\<lambda>(lines, i, p). length lines - i)")
  fix lines :: "string list" and i j :: nat and p p' :: parser and r :: "nat \<times> parser"
  assume "i < length lines" and "loop_body lines i p = Inr r" and "(j, p') = r"
  then have "i < j"
    using loop_body_advances [of lines i p j p'] by simp
  with \<open>i < length lines\<close>
  show "((lines, j, p'), lines, i, p) \<in> measure (\<lambda>(lines, i, p). length lines - i)"
    by simp
qed simp

declare parse_loop.simps [simp del]

fun after_close :: "string \<Rightarrow> string option" where
  \<comment> \<open>the text after the first \<open>*/\<close>, if there is one\<close>
  "after_close [] = None"
| "after_close (c # cs) =
     (if startswith ''*/'' (c # cs) then Some (drop 2 (c # cs)) else after_close cs)"

lemma after_close_shorter: "after_close s = Some r \<Longrightarrow> length r < length s"
  by (induction s) (auto split: if_splits)

function strip_comments :: "string \<Rightarrow> string" where
  \<comment> \<open>\<open>re.sub(r'/\*.*?\*/', '', content, flags=re.DOTALL)\<close>: each \<open>/*\<close> that has a
      later \<open>*/\<close> is removed up to the first such \<open>*/\<close>\<close>
  "strip_comments [] = []"
| "strip_comments (c # cs) =
     (if startswith ''/*'' (c # cs) then
        (case after_close (drop 1 cs) of
           Some rest \<Rightarrow> strip_comments rest
         | None \<Rightarrow> c # strip_comments cs)
      else c # strip_comments cs)"
  by pat_completeness auto
termination
proof (relation "measure length")
  fix c :: char and cs rest :: string
  assume "after_close (drop 1 cs) = Some rest"
  then have "length rest < length (drop 1 cs)"
    by (rule after_close_shorter)
  then show "(rest, c # cs) \<in> measure length"
    by simp
qed auto

definition parse_file :: "string \<Rightarrow> py_error + parser" where
  \<comment> \<open>\<open>parse_file\<close> on a fresh parser, from the content read from the file\<close>
  "parse_file content = parse_loop (split_chr (CHR 0x0A) (strip_comments content)) 0 init_parser"

section \<open>The PXL generator\<close>

definition BAR :: string where
  "BAR = ''// ============================================================================''"

definition generate_header :: string where
  "generate_header =
     BAR @ NL @ ''// Automatically Generated by SVRF-to-PXL Translator (Prototype)'' @ NL @
     BAR @ NL @ ''// This file was automatically translated from Calibre SVRF format'' @ NL @
     ''// Manual review and validation recommended'' @ NL @
     BAR @ NL @ NL @ ''#include <icv.rh>'' @ NL @ NL"

definition generate_layers :: "(string \<times> LayerDef) list \<Rightarrow> string" where
  "generate_layers ls =
     join NL ([BAR, ''// LAYER DEFINITIONS'', BAR @ NL]
              @ map LayerDef_to_pxl (sort_key gds_layer (map snd ls))
              @ [[]])"

definition generate_rules :: "node list \<Rightarrow> string" where
  "generate_rules rs =
     join NL ([BAR, ''// DRC RULES'', BAR @ NL]
              @ concat (map (\<lambda>r. [to_pxl r, []]) rs))"

definition generate_footer :: string where
  "generate_footer = BAR @ NL @ ''// END OF DRC DECK'' @ NL @ BAR @ NL"

definition generate :: "parser \<Rightarrow> string" where
  "generate p =
     join NL [generate_header, generate_layers (layers p), generate_rules (rules p),
              generate_footer]"

section \<open>The driver\<close>

record args =
  input_path :: string
  output_path :: string
  verbose :: bool
  stats :: bool

record env =
  read_file :: "string \<Rightarrow> py_error + string"
  write_file :: "string \<Rightarrow> string \<Rightarrow> py_error option"

definition main :: "env \<Rightarrow> args \<Rightarrow> int" where
  \<comment> \<open>the exit code of \<open>main\<close> after the arguments are parsed; console output is left out.
      Both handlers return 1: \<open>FileNotFoundError\<close> first, any other exception second.\<close>
  "main e a =
     (case read_file e (input_path a) of
        Inl err \<Rightarrow> (if err = FileNotFoundError then 1 else 1)
      | Inr content \<Rightarrow>
          (case parse_file content of
             Inl err \<Rightarrow> (if err = FileNotFoundError then 1 else 1)
           | Inr p \<Rightarrow>
               (case write_file e (output_path a) (generate p) of
                  Some err \<Rightarrow> (if err = FileNotFoundError then 1 else 1)
                | None \<Rightarrow> 0)))"

section \<open>The violation comparator\<close>

datatype Violation = Violation (vrule: string) (vx: pyfloat) (vy: pyfloat) (vtype: string)

definition fl_sub :: "pyfloat \<Rightarrow> pyfloat \<Rightarrow> pyfloat" where
  \<comment> \<open>\<open>a - b\<close>: the exact difference, rounded\<close>
  "fl_sub a b = (case (a, b) of
       (NaN, _) \<Rightarrow> NaN
     | (_, NaN) \<Rightarrow> NaN
     | (Fin n d, Fin m e) \<Rightarrow> fl_round (n * e - m * d, d * e)
     | (Fin _ _, PInf) \<Rightarrow> NInf
     | (Fin _ _, NInf) \<Rightarrow> PInf
     | (PInf, PInf) \<Rightarrow> NaN
     | (PInf, _) \<Rightarrow> PInf
     | (NInf, NInf) \<Rightarrow> NaN
     | (NInf, _) \<Rightarrow> NInf)"

definition fl_abs :: "pyfloat \<Rightarrow> pyfloat" where
  "fl_abs a = (case a of Fin n d \<Rightarrow> Fin \<bar>n\<bar> d | NInf \<Rightarrow> PInf | _ \<Rightarrow> a)"

definition fl_less :: "pyfloat \<Rightarrow> pyfloat \<Rightarrow> bool" where
  \<comment> \<open>\<open>a < b\<close>; false when either side is not a number\<close>
  "fl_less a b = (case (a, b) of
       (NaN, _) \<Rightarrow> False
     | (_, NaN) \<Rightarrow> False
     | (Fin n d, Fin m e) \<Rightarrow> n * e < m * d
     | (Fin _ _, PInf) \<Rightarrow> True
     | (Fin _ _, NInf) \<Rightarrow> False
     | (PInf, _) \<Rightarrow> False
     | (NInf, NInf) \<Rightarrow> False
     | (NInf, _) \<Rightarrow> True)"

definition float_lit :: "int \<Rightarrow> int \<Rightarrow> pyfloat" where
  \<comment> \<open>the float a decimal literal \<open>n / d\<close> denotes, for \<open>d\<close> a positive power of ten\<close>
  "float_lit n d = fl_round (n, d)"

definition round3 :: "pyfloat \<Rightarrow> pyfloat" where
  \<comment> \<open>\<open>round(x, 3)\<close>: to the nearest multiple of 0.001, ties to even, as a float\<close>
  "round3 a = (case a of
       Fin n d \<Rightarrow> fl_round (round_half_even (n * 1000, d), 1000)
     | _ \<Rightarrow> a)"

definition violation_eq :: "Violation \<Rightarrow> Violation \<Rightarrow> bool" where
  \<comment> \<open>\<open>Violation.__eq__\<close>\<close>
  "violation_eq a b =
     (vrule a = vrule b \<and>
      fl_less (fl_abs (fl_sub (vx a) (vx b))) (float_lit 1 1000) \<and>
      fl_less (fl_abs (fl_sub (vy a) (vy b))) (float_lit 1 1000))"

definition hash_key :: "Violation \<Rightarrow> string \<times> pyfloat \<times> pyfloat" where
  \<comment> \<open>the tuple \<open>Violation.__hash__\<close> hashes; two hashes are taken to be equal exactly
      when the tuples are\<close>
  "hash_key a = (vrule a, round3 (vx a), round3 (vy a))"

definition set_add :: "Violation list \<Rightarrow> Violation \<Rightarrow> Violation list" where
  \<comment> \<open>adding to a set: dropped when a member has the same hash and is equal to it\<close>
  "set_add s a = (if list_ex (\<lambda>b. hash_key b = hash_key a \<and> violation_eq b a) s
                  then s else s @ [a])"

definition py_set :: "Violation list \<Rightarrow> Violation list" where
  \<comment> \<open>\<open>set(xs)\<close>, its members listed in the order they were first added\<close>
  "py_set xs = foldl set_add [] xs"

definition violations_equal :: "pyfloat \<Rightarrow> Violation \<Rightarrow> Violation \<Rightarrow> bool" where
  \<comment> \<open>\<open>_violations_equal\<close>, for a comparator of the given tolerance\<close>
  "violations_equal tolerance v1 v2 =
     (vrule v1 = vrule v2 \<and>
      fl_less (fl_abs (fl_sub (vx v1) (vx v2))) tolerance \<and>
      fl_less (fl_abs (fl_sub (vy v1) (vy v2))) tolerance)"

definition violations_match :: "pyfloat \<Rightarrow> Violation list \<Rightarrow> Violation list \<Rightarrow> bool" where
  \<comment> \<open>\<open>_violations_match\<close>\<close>
  "violations_match tolerance cal_viols icv_viols =
     (if length cal_viols \<noteq> length icv_viols then False
      else list_all (\<lambda>cal_viol. list_ex (\<lambda>icv_viol. violations_equal tolerance cal_viol icv_viol)
                                       (py_set icv_viols))
                    (py_set cal_viols))"

record results =
  matching_rules :: "(string \<times> nat) list"
  mismatched_rules :: "(string \<times> nat \<times> nat \<times> string) list"
  only_calibre :: "(string \<times> nat) list"
  only_icv :: "(string \<times> nat) list"
  total_calibre :: nat
  total_icv :: nat
  perfect_match :: bool

type_synonym violations = "(string \<times> Violation list) list"

definition dict_get :: "('k \<times> 'v) list \<Rightarrow> 'k \<Rightarrow> 'v \<Rightarrow> 'v" where
  \<comment> \<open>\<open>d.get(k, default)\<close>\<close>
  "dict_get d k dflt = (case map_of d k of None \<Rightarrow> dflt | Some v \<Rightarrow> v)"

definition compare_rule ::
  "pyfloat \<Rightarrow> violations \<Rightarrow> violations \<Rightarrow> results \<Rightarrow> string \<Rightarrow> results" where
  \<comment> \<open>the body of the loop over the sorted rule names in \<open>compare\<close>; an entry of a result
      list is the tuple of the values of its dictionary\<close>
  "compare_rule tolerance cal_violations icv_violations res r =
     (let cal_viols = dict_get cal_violations r [];
          icv_viols = dict_get icv_violations r [];
          cal_count = length cal_viols;
          icv_count = length icv_viols;
          res = res\<lparr>total_calibre := total_calibre res + cal_count,
                    total_icv := total_icv res + icv_count\<rparr>
      in if r \<notin> set (map fst icv_violations)
           then res\<lparr>only_calibre := only_calibre res @ [(r, cal_count)]\<rparr>
         else if r \<notin> set (map fst cal_violations)
           then res\<lparr>only_icv := only_icv res @ [(r, icv_count)]\<rparr>
         else if cal_count = icv_count then
           (if violations_match tolerance cal_viols icv_viols
            then res\<lparr>matching_rules := matching_rules res @ [(r, cal_count)]\<rparr>
            else res\<lparr>mismatched_rules := mismatched_rules res
                        @ [(r, cal_count, icv_count, ''locations differ'')]\<rparr>)
         else res\<lparr>mismatched_rules := mismatched_rules res
                     @ [(r, cal_count, icv_count, ''counts differ'')]\<rparr>)"

definition compare :: "pyfloat \<Rightarrow> violations \<Rightarrow> violations \<Rightarrow> results" where
  \<comment> \<open>\<open>DRCComparator(tolerance).compare(cal_violations, icv_violations)\<close>; a dictionary is
      the list of its items\<close>
  "compare tolerance cal_violations icv_violations =
     (let res = foldl (compare_rule tolerance cal_violations icv_violations)
                  \<lparr>matching_rules = [], mismatched_rules = [], only_calibre = [],
                   only_icv = [], total_calibre = 0, total_icv = 0, perfect_match = False\<rparr>
                  (sort (remdups (map fst cal_violations @ map fst icv_violations)))
      in res\<lparr>perfect_match := (length (mismatched_rules res) = 0 \<and>
                                  length (only_calibre res) = 0 \<and>
                                  length (only_icv res) = 0)\<rparr>)"

section \<open>The generator on a store of objects\<close>

text \<open>
  For the question whether generation changes anything, the objects are made explicit. The
  parser and the generator are objects, and so are the dictionary and the lists they hold and
  every list a method of the generator builds. A store lists the objects allocated so far;
  the address of an object is its index. A method takes the store and returns its result
  with the store it leaves. Layer definitions and rule nodes are values: their \<open>to_pxl\<close>
  reads their fields and returns a string. Reading an address that does not hold the kind of
  object expected yields the empty list; the stores of interest hold a parser whose
  attributes are its dictionary and its list.
\<close>

datatype obj =
    StrList "string list"
  | LayerList "LayerDef list"
  | NodeList "node list"
  | LayerDict "(string \<times> LayerDef) list"
  | ParserObj nat nat "string option"
  | GeneratorObj nat

type_synonym store = "obj list"

definition new_obj :: "obj \<Rightarrow> store \<Rightarrow> nat \<times> store" where
  \<comment> \<open>allocate an object: its address and the store with it\<close>
  "new_obj v s = (length s, s @ [v])"

definition list_append :: "nat \<Rightarrow> string \<Rightarrow> store \<Rightarrow> store" where
  \<comment> \<open>\<open>xs.append(x)\<close> for the list at an address: the object is changed in place\<close>
  "list_append a x s =
     (if a < length s
      then (case s ! a of StrList xs \<Rightarrow> s[a := StrList (xs @ [x])] | _ \<Rightarrow> s)
      else s)"

definition str_list :: "nat \<Rightarrow> store \<Rightarrow> string list" where
  "str_list a s = (if a < length s then (case s ! a of StrList xs \<Rightarrow> xs | _ \<Rightarrow> []) else [])"

definition layer_list :: "nat \<Rightarrow> store \<Rightarrow> LayerDef list" where
  "layer_list a s = (if a < length s then (case s ! a of LayerList xs \<Rightarrow> xs | _ \<Rightarrow> []) else [])"

definition node_list :: "nat \<Rightarrow> store \<Rightarrow> node list" where
  "node_list a s = (if a < length s then (case s ! a of NodeList xs \<Rightarrow> xs | _ \<Rightarrow> []) else [])"

definition dict_values :: "nat \<Rightarrow> store \<Rightarrow> LayerDef list" where
  \<comment> \<open>\<open>d.values()\<close> for the dictionary at an address\<close>
  "dict_values a s =
     (if a < length s then (case s ! a of LayerDict d \<Rightarrow> map snd d | _ \<Rightarrow> []) else [])"

definition parser_layers :: "nat \<Rightarrow> store \<Rightarrow> nat" where
  \<comment> \<open>the attribute \<open>parser.layers\<close>: the address of the dictionary\<close>
  "parser_layers p s =
     (if p < length s then (case s ! p of ParserObj la ra c \<Rightarrow> la | _ \<Rightarrow> p) else p)"

definition parser_rules :: "nat \<Rightarrow> store \<Rightarrow> nat" where
  \<comment> \<open>the attribute \<open>parser.rules\<close>: the address of the list\<close>
  "parser_rules p s =
     (if p < length s then (case s ! p of ParserObj la ra c \<Rightarrow> ra | _ \<Rightarrow> p) else p)"

definition generate_layers_m :: "nat \<Rightarrow> nat \<Rightarrow> store \<Rightarrow> string \<times> store" where
  \<comment> \<open>\<open>self.generate_layers(layers)\<close>: \<open>lines\<close> is a new list, \<open>sorted(...)\<close> returns a new
      list, and the loop appends to \<open>lines\<close>\<close>
  "generate_layers_m self ls s0 =
     (let (lines, s1) = new_obj (StrList []) s0;
          s2 = list_append lines BAR s1;
          s3 = list_append lines ''// LAYER DEFINITIONS'' s2;
          s4 = list_append lines (BAR @ NL) s3;
          (srt, s5) = new_obj (LayerList (sort_key gds_layer (dict_values ls s4))) s4;
          s6 = fold (\<lambda>layer. list_append lines (LayerDef_to_pxl layer)) (layer_list srt s5) s5;
          s7 = list_append lines [] s6
      in (join NL (str_list lines s7), s7))"

definition generate_rules_m :: "nat \<Rightarrow> nat \<Rightarrow> store \<Rightarrow> string \<times> store" where
  \<comment> \<open>\<open>self.generate_rules(rules)\<close>: the loop runs over the list passed in and appends the
      rendering of each rule and an empty line to the new list \<open>lines\<close>\<close>
  "generate_rules_m self rs s0 =
     (let (lines, s1) = new_obj (StrList []) s0;
          s2 = list_append lines BAR s1;
          s3 = list_append lines ''// DRC RULES'' s2;
          s4 = list_append lines (BAR @ NL) s3;
          s5 = fold (\<lambda>rule s. list_append lines [] (list_append lines (to_pxl rule) s))
                    (node_list rs s4) s4
      in (join NL (str_list lines s5), s5))"

definition generate_m :: "nat \<Rightarrow> nat \<Rightarrow> store \<Rightarrow> string \<times> store" where
  \<comment> \<open>\<open>self.generate(parser)\<close>, for the generator at address \<open>self\<close> and the parser at
      address \<open>parser\<close>\<close>
  "generate_m self parser s0 =
     (let (output, s1) = new_obj (StrList []) s0;
          s2 = list_append output generate_header s1;
          (t1, s3) = generate_layers_m self (parser_layers parser s2) s2;
          s4 = list_append output t1 s3;
          (t2, s5) = generate_rules_m self (parser_rules parser s4) s4;
          s6 = list_append output t2 s5;
          s7 = list_append output generate_footer s6
      in (join NL (str_list output s7), s7))"

section \<open>Well-formed layer tables\<close>

definition layer_table :: "(string \<times> LayerDef) list \<Rightarrow> bool" where
  \<comment> \<open>a dictionary of layers as the parser builds it: the keys are distinct and each
      layer is stored under its own name\<close>
  "layer_table ls = (distinct (map fst ls) \<and> (\<forall>(k, v) \<in> set ls. name v = k))"

section \<open>Violation reconciliation\<close>

text \<open>
  C9. With tolerance 0.001, a Calibre rule \<open>M1.W.1\<close> with one violation at (10.5, 20.3) and
  an ICV rule \<open>M1.W.1\<close> with one violation at (10.5003, 20.2997) are reported as matching:
  the rule is the one entry of \<open>matching_rules\<close>, with count 1, no rule is mismatched or
  one-sided, and the comparison is a perfect match.
\<close>

theorem scenario5_reported_matching:
  "compare (float_lit 1 1000)
     [(''M1.W.1'', [Violation ''M1.W.1'' (float_lit 105 10) (float_lit 203 10) ''polygon''])]
     [(''M1.W.1'', [Violation ''M1.W.1'' (float_lit 105003 10000) (float_lit 202997 10000)
                      ''unknown''])]
   = \<lparr>matching_rules = [(''M1.W.1'', 1)], mismatched_rules = [], only_calibre = [],
      only_icv = [], total_calibre = 1, total_icv = 1, perfect_match = True\<rparr>"
  by code_simp

section \<open>What the patterns capture\<close>

lemma re_match_mem: "re_match pat s = Some g \<Longrightarrow> \<exists>r. (g, r) \<in> set (match_seq pat s)"
  by (auto simp: re_match_def split: list.splits)

lemma match_seq_Cons_mem:
  "(g, r) \<in> set (match_seq (i # its) s) \<longleftrightarrow>
     (\<exists>g1 r1 g2. (g1, r1) \<in> set (match_item i s) \<and> (g2, r) \<in> set (match_seq its r1) \<and>
                 g = g1 @ g2)"
  (is "?L \<longleftrightarrow> ?R")
proof
  assume ?L
  then show ?R
    by auto
next
  assume ?R
  then obtain g1 r1 g2 where a: "(g1, r1) \<in> set (match_item i s)"
      "(g2, r) \<in> set (match_seq its r1)" "g = g1 @ g2"
    by blast
  let ?F = "\<lambda>(g1, r1). map (\<lambda>(g2, r2). (g1 @ g2, r2)) (match_seq its r1)"
  from a(2,3) have "(g, r) \<in> set (?F (g1, r1))"
    by force
  moreover from a(1) have "?F (g1, r1) \<in> set (map ?F (match_item i s))"
    by (simp only: set_map) (rule imageI)
  ultimately have "(g, r) \<in> set (concat (map ?F (match_item i s)))"
    unfolding set_concat by blast
  then show ?L
    by simp
qed

lemma startswith_take: "startswith l s \<Longrightarrow> take (length l) s = l \<and> length l \<le> length s"
  by (induction l s rule: startswith.induct) auto

lemma runs_shorter: "r \<in> set (runs c s) \<Longrightarrow> length r < length s"
  by (induction s) (auto split: if_splits)

lemma match_seq_Nil_mem: "(g, r) \<in> set (match_seq [] s) \<longleftrightarrow> g = [] \<and> r = s"
  by auto

lemma lit_groups: "(g, r) \<in> set (match_item (Lit l) s) \<Longrightarrow> g = []"
  by (auto split: if_splits)

lemma plus_groups: "(g, r) \<in> set (match_item (Plus c) s) \<Longrightarrow> g = []"
  by auto

lemma star_groups: "(g, r) \<in> set (match_item (Star c) s) \<Longrightarrow> g = []"
  by auto

lemma concat_pairs: "concat (map (\<lambda>(a, b). [(a, b)]) xs) = xs"
  by (induction xs) auto

lemma match_seq_single: "match_seq [i] s = match_item i s"
  by (simp add: concat_pairs)

lemma match_cap_plus:
  "match_item (Cap [Plus c]) s
     = map (\<lambda>r. ([Some (take (length s - length r) s)], r)) (runs c s)"
  by (simp only: match_item.simps match_seq_single) (simp add: comp_def)

lemma cap_plus_groups:
  "(g, r) \<in> set (match_item (Cap [Plus c]) s) \<Longrightarrow> \<exists>w. g = [Some w] \<and> w \<noteq> []"
proof -
  assume "(g, r) \<in> set (match_item (Cap [Plus c]) s)"
  then have "r \<in> set (runs c s)" and g: "g = [Some (take (length s - length r) s)]"
    by (auto simp only: match_cap_plus set_map)
  then have "length r < length s"
    using runs_shorter by blast
  then have "take (length s - length r) s \<noteq> []"
    by auto
  with g show ?thesis
    by blast
qed

lemma alt_mem:
  "(g, r) \<in> set (match_item (Alt ls) s) \<longleftrightarrow>
     (\<exists>l \<in> set ls. startswith l s \<and> r = drop (length l) s \<and> g = [])"
  by (induction ls) auto

lemma cap_alt_groups:
  "(g, r) \<in> set (match_item (Cap [Alt ls]) s) \<Longrightarrow> \<exists>l \<in> set ls. g = [Some l]"
proof -
  assume "(g, r) \<in> set (match_item (Cap [Alt ls]) s)"
  then have "(g, r) \<in> set (map (\<lambda>(g, r). (Some (take (length s - length r) s) # g, r))
                              (match_item (Alt ls) s))"
    by (simp only: match_item.simps match_seq_single)
  then obtain g' where "(g', r) \<in> set (match_item (Alt ls) s)"
      and g: "g = Some (take (length s - length r) s) # g'"
    by (simp only: set_map) auto
  then obtain l where l: "l \<in> set ls" "startswith l s" "r = drop (length l) s" "g' = []"
    unfolding alt_mem by blast
  from l(2) have "take (length l) s = l" "length l \<le> length s"
    using startswith_take by blast+
  with l(3,4) g have "g = [Some l]"
    by simp
  with l(1) show ?thesis
    by blast
qed

lemma opt_groups:
  "(g, r) \<in> set (match_item (Opt [Plus Space, Cap [Plus Word]]) s) \<Longrightarrow>
     g = [None] \<or> (\<exists>w. g = [Some w] \<and> w \<noteq> [])"
proof -
  assume "(g, r) \<in> set (match_item (Opt [Plus Space, Cap [Plus Word]]) s)"
  then have "(g, r) \<in> set (match_seq [Plus Space, Cap [Plus Word]] s) \<or> g = [None]"
    by (simp only: match_item.simps set_append) auto
  then show ?thesis
  proof
    assume "(g, r) \<in> set (match_seq [Plus Space, Cap [Plus Word]] s)"
    then obtain g1 r1 g2 where "(g1, r1) \<in> set (match_item (Plus Space) s)"
        "(g2, r) \<in> set (match_item (Cap [Plus Word]) r1)" "g = g1 @ g2"
      by (simp only: match_seq_Cons_mem match_seq_single) blast
    then show ?thesis
      using plus_groups cap_plus_groups by fastforce
  qed simp
qed

lemma assign_groups:
  assumes "re_match ASSIGN_RE line = Some g"
  shows "\<exists>res opn l1 l2. g = [Some res, Some opn, Some l1, l2] \<and>
           (opn = ''AND'' \<or> opn = ''OR'' \<or> opn = ''NOT'') \<and> (\<forall>b. l2 = Some b \<longrightarrow> b \<noteq> [])"
proof -
  from assms obtain r where "(g, r) \<in> set (match_seq ASSIGN_RE line)"
    using re_match_mem by blast
  then have "\<exists>g1 r1 g2 r2 g3 r3 g4 r4 g5 r5 g6 r6 g7 r7 g8.
      (g1, r1) \<in> set (match_item (Cap [Plus Word]) line) \<and>
      (g2, r2) \<in> set (match_item (Star Space) r1) \<and>
      (g3, r3) \<in> set (match_item (Lit ''='') r2) \<and>
      (g4, r4) \<in> set (match_item (Star Space) r3) \<and>
      (g5, r5) \<in> set (match_item (Cap [Alt [''AND'', ''OR'', ''NOT'']]) r4) \<and>
      (g6, r6) \<in> set (match_item (Plus Space) r5) \<and>
      (g7, r7) \<in> set (match_item (Cap [Plus Word]) r6) \<and>
      (g8, r) \<in> set (match_item (Opt [Plus Space, Cap [Plus Word]]) r7) \<and>
      g = g1 @ g2 @ g3 @ g4 @ g5 @ g6 @ g7 @ g8"
    unfolding ASSIGN_RE_def
    by (simp only: match_seq_Cons_mem match_seq_single) blast
  then obtain g1 g2 g3 g4 g5 g6 g7 g8 r1 r2 r3 r4 r5 r6 r7 where
      g: "g = g1 @ g2 @ g3 @ g4 @ g5 @ g6 @ g7 @ g8"
    and m1: "(g1, r1) \<in> set (match_item (Cap [Plus Word]) line)"
    and m2: "(g2, r2) \<in> set (match_item (Star Space) r1)"
    and m3: "(g3, r3) \<in> set (match_item (Lit ''='') r2)"
    and m4: "(g4, r4) \<in> set (match_item (Star Space) r3)"
    and m5: "(g5, r5) \<in> set (match_item (Cap [Alt [''AND'', ''OR'', ''NOT'']]) r4)"
    and m6: "(g6, r6) \<in> set (match_item (Plus Space) r5)"
    and m7: "(g7, r7) \<in> set (match_item (Cap [Plus Word]) r6)"
    and m8: "(g8, r) \<in> set (match_item (Opt [Plus Space, Cap [Plus Word]]) r7)"
    by (elim exE conjE)
  from m1 obtain w1 where "g1 = [Some w1]"
    using cap_plus_groups by blast
  moreover from m2 have "g2 = []"
    by (rule star_groups)
  moreover from m3 have "g3 = []"
    by (rule lit_groups)
  moreover from m4 have "g4 = []"
    by (rule star_groups)
  moreover from cap_alt_groups [OF m5]
  obtain opn where "g5 = [Some opn]" "opn = ''AND'' \<or> opn = ''OR'' \<or> opn = ''NOT''"
    by auto
  moreover from m6 have "g6 = []"
    by (rule plus_groups)
  moreover from m7 obtain w7 where "g7 = [Some w7]"
    using cap_plus_groups by blast
  moreover from opt_groups [OF m8]
  obtain l2 where "g8 = [l2]" "\<forall>b. l2 = Some b \<longrightarrow> b \<noteq> []"
    by auto
  ultimately show ?thesis
    using g by simp
qed

lemma re_search_mem: "re_search pat s = Some g \<Longrightarrow> \<exists>s' r. (g, r) \<in> set (match_seq pat s')"
proof (induction s)
  case Nil
  then show ?case
    using re_match_mem by fastforce
next
  case (Cons c cs)
  show ?case
  proof (cases "re_match pat (c # cs)")
    case None
    with Cons show ?thesis
      by simp
  next
    case (Some g')
    with Cons.prems have "re_match pat (c # cs) = Some g"
      by simp
    then show ?thesis
      using re_match_mem by blast
  qed
qed

lemma check_pattern_groups:
  assumes "re_search [Lit kw, Plus Space, Cap [Plus Word], Star Space, Cap [Plus Cmp],
                      Star Space, Cap [Plus Num]] s = Some g"
  shows "\<exists>l opr tok. g = [Some l, Some opr, Some tok]"
proof -
  from re_search_mem [OF assms] obtain s' r where
    "(g, r) \<in> set (match_seq [Lit kw, Plus Space, Cap [Plus Word], Star Space, Cap [Plus Cmp],
                               Star Space, Cap [Plus Num]] s')"
    by blast
  then have "\<exists>g1 r1 g2 r2 g3 r3 g4 r4 g5 r5 g6 r6 g7.
      (g1, r1) \<in> set (match_item (Lit kw) s') \<and>
      (g2, r2) \<in> set (match_item (Plus Space) r1) \<and>
      (g3, r3) \<in> set (match_item (Cap [Plus Word]) r2) \<and>
      (g4, r4) \<in> set (match_item (Star Space) r3) \<and>
      (g5, r5) \<in> set (match_item (Cap [Plus Cmp]) r4) \<and>
      (g6, r6) \<in> set (match_item (Star Space) r5) \<and>
      (g7, r) \<in> set (match_item (Cap [Plus Num]) r6) \<and>
      g = g1 @ g2 @ g3 @ g4 @ g5 @ g6 @ g7"
    by (simp only: match_seq_Cons_mem match_seq_single) blast
  then obtain g1 g2 g3 g4 g5 g6 g7 r1 r2 r3 r4 r5 r6 where
      g: "g = g1 @ g2 @ g3 @ g4 @ g5 @ g6 @ g7"
    and m1: "(g1, r1) \<in> set (match_item (Lit kw) s')"
    and m2: "(g2, r2) \<in> set (match_item (Plus Space) r1)"
    and m3: "(g3, r3) \<in> set (match_item (Cap [Plus Word]) r2)"
    and m4: "(g4, r4) \<in> set (match_item (Star Space) r3)"
    and m5: "(g5, r5) \<in> set (match_item (Cap [Plus Cmp]) r4)"
    and m6: "(g6, r6) \<in> set (match_item (Star Space) r5)"
    and m7: "(g7, r) \<in> set (match_item (Cap [Plus Num]) r6)"
    by (elim exE conjE)
  from m1 have "g1 = []"
    by (rule lit_groups)
  moreover from m2 have "g2 = []"
    by (rule plus_groups)
  moreover from m3 obtain l where "g3 = [Some l]"
    using cap_plus_groups by blast
  moreover from m4 have "g4 = []"
    by (rule star_groups)
  moreover from m5 obtain opr where "g5 = [Some opr]"
    using cap_plus_groups by blast
  moreover from m6 have "g6 = []"
    by (rule star_groups)
  moreover from m7 obtain tok where "g7 = [Some tok]"
    using cap_plus_groups by blast
  ultimately show ?thesis
    using g by simp
qed

lemma enc_pattern_groups:
  assumes "re_search ENC_RE s = Some g"
  shows "\<exists>outer inner opr tok. g = [Some outer, Some inner, Some opr, Some tok]"
proof -
  from re_search_mem [OF assms] obtain s' r where "(g, r) \<in> set (match_seq ENC_RE s')"
    by blast
  then have "\<exists>g1 r1 g2 r2 g3 r3 g4 r4 g5 r5 g6 r6 g7 r7 g8 r8 g9.
      (g1, r1) \<in> set (match_item (Lit ''ENC'') s') \<and>
      (g2, r2) \<in> set (match_item (Plus Space) r1) \<and>
      (g3, r3) \<in> set (match_item (Cap [Plus Word]) r2) \<and>
      (g4, r4) \<in> set (match_item (Plus Space) r3) \<and>
      (g5, r5) \<in> set (match_item (Cap [Plus Word]) r4) \<and>
      (g6, r6) \<in> set (match_item (Star Space) r5) \<and>
      (g7, r7) \<in> set (match_item (Cap [Plus Cmp]) r6) \<and>
      (g8, r8) \<in> set (match_item (Star Space) r7) \<and>
      (g9, r) \<in> set (match_item (Cap [Plus Num]) r8) \<and>
      g = g1 @ g2 @ g3 @ g4 @ g5 @ g6 @ g7 @ g8 @ g9"
    unfolding ENC_RE_def
    by (simp only: match_seq_Cons_mem match_seq_single) blast
  then obtain g1 g2 g3 g4 g5 g6 g7 g8 g9 r1 r2 r3 r4 r5 r6 r7 r8 where
      g: "g = g1 @ g2 @ g3 @ g4 @ g5 @ g6 @ g7 @ g8 @ g9"
    and m1: "(g1, r1) \<in> set (match_item (Lit ''ENC'') s')"
    and m2: "(g2, r2) \<in> set (match_item (Plus Space) r1)"
    and m3: "(g3, r3) \<in> set (match_item (Cap [Plus Word]) r2)"
    and m4: "(g4, r4) \<in> set (match_item (Plus Space) r3)"
    and m5: "(g5, r5) \<in> set (match_item (Cap [Plus Word]) r4)"
    and m6: "(g6, r6) \<in> set (match_item (Star Space) r5)"
    and m7: "(g7, r7) \<in> set (match_item (Cap [Plus Cmp]) r6)"
    and m8: "(g8, r8) \<in> set (match_item (Star Space) r7)"
    and m9: "(g9, r) \<in> set (match_item (Cap [Plus Num]) r8)"
    by (elim exE conjE)
  from m1 have "g1 = []"
    by (rule lit_groups)
  moreover from m2 have "g2 = []"
    by (rule plus_groups)
  moreover from m3 obtain a where "g3 = [Some a]"
    using cap_plus_groups by blast
  moreover from m4 have "g4 = []"
    by (rule plus_groups)
  moreover from m5 obtain b where "g5 = [Some b]"
    using cap_plus_groups by blast
  moreover from m6 have "g6 = []"
    by (rule star_groups)
  moreover from m7 obtain opr where "g7 = [Some opr]"
    using cap_plus_groups by blast
  moreover from m8 have "g8 = []"
    by (rule star_groups)
  moreover from m9 obtain tok where "g9 = [Some tok]"
    using cap_plus_groups by blast
  ultimately show ?thesis
    using g by simp
qed

section \<open>The rule block classifier\<close>

lemma py_float_error: "py_float tok = Inl e \<Longrightarrow> e = ValueError"
  by (simp add: py_float_def split: if_splits)

lemma groups3_nomatch:
  "\<not> (\<exists>a b c. g = Some [Some a, Some b, Some c]) \<Longrightarrow>
     (case g of Some [Some a, Some b, Some c] \<Rightarrow> f a b c | _ \<Rightarrow> d) = d"
  by (auto split: option.splits list.splits)

lemma groups4_nomatch:
  "\<not> (\<exists>a b c e. g = Some [Some a, Some b, Some c, Some e]) \<Longrightarrow>
     (case g of Some [Some a, Some b, Some c, Some e] \<Rightarrow> f a b c e | _ \<Rightarrow> d) = d"
  by (auto split: option.splits list.splits)

lemma check3_exact:
  fixes g :: "groups option" and mk :: "string \<Rightarrow> string \<Rightarrow> pyfloat \<Rightarrow> node" and p :: parser
  assumes shape: "\<And>x. g = Some x \<Longrightarrow> \<exists>l opr tok. x = [Some l, Some opr, Some tok]"
    and r: "r = (case g of
       Some [Some l, Some opr, Some v] \<Rightarrow>
         (case py_float v of Inl e \<Rightarrow> Inl e | Inr x \<Rightarrow> Inr (append_rule (mk l opr x) p))
     | _ \<Rightarrow> Inr p)"
  shows "(g = None \<and> r = Inr p) \<or>
     (\<exists>l opr tok. g = Some [Some l, Some opr, Some tok] \<and>
        ((py_float tok = Inl ValueError \<and> r = Inl ValueError) \<or>
         (\<exists>v. py_float tok = Inr v \<and> r = Inr (p\<lparr>rules := rules p @ [mk l opr v]\<rparr>))))"
proof (cases g)
  case None
  with r show ?thesis
    by simp
next
  case (Some x)
  with shape obtain l opr tok where g: "g = Some [Some l, Some opr, Some tok]"
    by blast
  show ?thesis
  proof (cases "py_float tok")
    case (Inl e)
    then have "e = ValueError"
      by (rule py_float_error)
    with Inl g r show ?thesis
      by simp
  next
    case (Inr v)
    with g r show ?thesis
      by (simp add: append_rule_def)
  qed
qed

lemma check4_exact:
  fixes g :: "groups option" and mk :: "string \<Rightarrow> string \<Rightarrow> string \<Rightarrow> pyfloat \<Rightarrow> node"
    and p :: parser
  assumes shape: "\<And>x. g = Some x \<Longrightarrow> \<exists>a b opr tok. x = [Some a, Some b, Some opr, Some tok]"
    and r: "r = (case g of
       Some [Some a, Some b, Some opr, Some v] \<Rightarrow>
         (case py_float v of Inl e \<Rightarrow> Inl e | Inr x \<Rightarrow> Inr (append_rule (mk a b opr x) p))
     | _ \<Rightarrow> Inr p)"
  shows "(g = None \<and> r = Inr p) \<or>
     (\<exists>a b opr tok. g = Some [Some a, Some b, Some opr, Some tok] \<and>
        ((py_float tok = Inl ValueError \<and> r = Inl ValueError) \<or>
         (\<exists>v. py_float tok = Inr v \<and> r = Inr (p\<lparr>rules := rules p @ [mk a b opr v]\<rparr>))))"
proof (cases g)
  case None
  with r show ?thesis
    by simp
next
  case (Some x)
  with shape obtain a b opr tok where g: "g = Some [Some a, Some b, Some opr, Some tok]"
    by blast
  show ?thesis
  proof (cases "py_float tok")
    case (Inl e)
    then have "e = ValueError"
      by (rule py_float_error)
    with Inl g r show ?thesis
      by simp
  next
    case (Inr v)
    with g r show ?thesis
      by (simp add: append_rule_def)
  qed
qed

text \<open>
  C3. The classifier selects the check variant by the fixed keyword priority WIDTH, EXTERNAL,
  INTERNAL, ENC, wherever the keywords stand in the text, and the selected keyword alone
  determines the result. For a block that contains WIDTH the result is fixed by the width
  pattern: no match, and the parser is returned as it was; or a match with a layer, an operator
  and a value token, and then either the token does not convert and \<open>ValueError\<close> is raised, or
  it converts and exactly one WidthCheck of these three is appended to the rules. The same
  holds with EXTERNAL and a SpacingCheck for a block without WIDTH, with INTERNAL and a
  SpacingCheck for a block without WIDTH and EXTERNAL, and with ENC and an EnclosureCheck for a
  block without the three. A block with none of the keywords yields no node.
\<close>

theorem classifier_priority:
  "(contains ''WIDTH'' block \<longrightarrow>
      (re_search WIDTH_RE block = None \<and> parse_rule_block rn block c p = Inr p) \<or>
      (\<exists>l opr tok. re_search WIDTH_RE block = Some [Some l, Some opr, Some tok] \<and>
         ((py_float tok = Inl ValueError \<and> parse_rule_block rn block c p = Inl ValueError) \<or>
          (\<exists>v. py_float tok = Inr v \<and>
             parse_rule_block rn block c p
               = Inr (p\<lparr>rules := rules p @ [WidthCheck rn l opr v c]\<rparr>))))) \<and>
   (\<not> contains ''WIDTH'' block \<and> contains ''EXTERNAL'' block \<longrightarrow>
      (re_search EXTERNAL_RE block = None \<and> parse_rule_block rn block c p = Inr p) \<or>
      (\<exists>l opr tok. re_search EXTERNAL_RE block = Some [Some l, Some opr, Some tok] \<and>
         ((py_float tok = Inl ValueError \<and> parse_rule_block rn block c p = Inl ValueError) \<or>
          (\<exists>v. py_float tok = Inr v \<and>
             parse_rule_block rn block c p
               = Inr (p\<lparr>rules := rules p @ [SpacingCheck rn l opr v c]\<rparr>))))) \<and>
   (\<not> contains ''WIDTH'' block \<and> \<not> contains ''EXTERNAL'' block \<and>
    contains ''INTERNAL'' block \<longrightarrow>
      (re_search INTERNAL_RE block = None \<and> parse_rule_block rn block c p = Inr p) \<or>
      (\<exists>l opr tok. re_search INTERNAL_RE block = Some [Some l, Some opr, Some tok] \<and>
         ((py_float tok = Inl ValueError \<and> parse_rule_block rn block c p = Inl ValueError) \<or>
          (\<exists>v. py_float tok = Inr v \<and>
             parse_rule_block rn block c p
               = Inr (p\<lparr>rules := rules p @ [SpacingCheck rn l opr v c]\<rparr>))))) \<and>
   (\<not> contains ''WIDTH'' block \<and> \<not> contains ''EXTERNAL'' block \<and>
    \<not> contains ''INTERNAL'' block \<and> contains ''ENC'' block \<longrightarrow>
      (re_search ENC_RE block = None \<and> parse_rule_block rn block c p = Inr p) \<or>
      (\<exists>outer inner opr tok.
         re_search ENC_RE block = Some [Some outer, Some inner, Some opr, Some tok] \<and>
         ((py_float tok = Inl ValueError \<and> parse_rule_block rn block c p = Inl ValueError) \<or>
          (\<exists>v. py_float tok = Inr v \<and>
             parse_rule_block rn block c p
               = Inr (p\<lparr>rules := rules p @ [EnclosureCheck rn outer inner opr v c]\<rparr>))))) \<and>
   (\<not> contains ''WIDTH'' block \<and> \<not> contains ''EXTERNAL'' block \<and>
    \<not> contains ''INTERNAL'' block \<and> \<not> contains ''ENC'' block \<longrightarrow>
      parse_rule_block rn block c p = Inr p)"
proof (intro conjI impI)
  assume h: "contains ''WIDTH'' block"
  have shape: "\<And>x. re_search WIDTH_RE block = Some x \<Longrightarrow>
      \<exists>l opr tok. x = [Some l, Some opr, Some tok]"
    unfolding WIDTH_RE_def by (rule check_pattern_groups)
  have eq: "parse_rule_block rn block c p =
      (case re_search WIDTH_RE block of
         Some [Some l, Some opr, Some v] \<Rightarrow>
           (case py_float v of
              Inl e \<Rightarrow> Inl e
            | Inr x \<Rightarrow> Inr (append_rule (WidthCheck rn l opr x c) p))
       | _ \<Rightarrow> Inr p)"
    using h by (simp add: parse_rule_block_def)
  show "(re_search WIDTH_RE block = None \<and> parse_rule_block rn block c p = Inr p) \<or>
      (\<exists>l opr tok. re_search WIDTH_RE block = Some [Some l, Some opr, Some tok] \<and>
         ((py_float tok = Inl ValueError \<and> parse_rule_block rn block c p = Inl ValueError) \<or>
          (\<exists>v. py_float tok = Inr v \<and>
             parse_rule_block rn block c p
               = Inr (p\<lparr>rules := rules p @ [WidthCheck rn l opr v c]\<rparr>))))"
    by (rule check3_exact [where mk = "\<lambda>l opr v. WidthCheck rn l opr v c", OF shape eq])
next
  assume h: "\<not> contains ''WIDTH'' block \<and> contains ''EXTERNAL'' block"
  have shape: "\<And>x. re_search EXTERNAL_RE block = Some x \<Longrightarrow>
      \<exists>l opr tok. x = [Some l, Some opr, Some tok]"
    unfolding EXTERNAL_RE_def by (rule check_pattern_groups)
  have eq: "parse_rule_block rn block c p =
      (case re_search EXTERNAL_RE block of
         Some [Some l, Some opr, Some v] \<Rightarrow>
           (case py_float v of
              Inl e \<Rightarrow> Inl e
            | Inr x \<Rightarrow> Inr (append_rule (SpacingCheck rn l opr x c) p))
       | _ \<Rightarrow> Inr p)"
    using h by (simp add: parse_rule_block_def)
  show "(re_search EXTERNAL_RE block = None \<and> parse_rule_block rn block c p = Inr p) \<or>
      (\<exists>l opr tok. re_search EXTERNAL_RE block = Some [Some l, Some opr, Some tok] \<and>
         ((py_float tok = Inl ValueError \<and> parse_rule_block rn block c p = Inl ValueError) \<or>
          (\<exists>v. py_float tok = Inr v \<and>
             parse_rule_block rn block c p
               = Inr (p\<lparr>rules := rules p @ [SpacingCheck rn l opr v c]\<rparr>))))"
    by (rule check3_exact [where mk = "\<lambda>l opr v. SpacingCheck rn l opr v c", OF shape eq])
next
  assume h: "\<not> contains ''WIDTH'' block \<and> \<not> contains ''EXTERNAL'' block \<and>
    contains ''INTERNAL'' block"
  have shape: "\<And>x. re_search INTERNAL_RE block = Some x \<Longrightarrow>
      \<exists>l opr tok. x = [Some l, Some opr, Some tok]"
    unfolding INTERNAL_RE_def by (rule check_pattern_groups)
  have eq: "parse_rule_block rn block c p =
      (case re_search INTERNAL_RE block of
         Some [Some l, Some opr, Some v] \<Rightarrow>
           (case py_float v of
              Inl e \<Rightarrow> Inl e
            | Inr x \<Rightarrow> Inr (append_rule (SpacingCheck rn l opr x c) p))
       | _ \<Rightarrow> Inr p)"
    using h by (simp add: parse_rule_block_def)
  show "(re_search INTERNAL_RE block = None \<and> parse_rule_block rn block c p = Inr p) \<or>
      (\<exists>l opr tok. re_search INTERNAL_RE block = Some [Some l, Some opr, Some tok] \<and>
         ((py_float tok = Inl ValueError \<and> parse_rule_block rn block c p = Inl ValueError) \<or>
          (\<exists>v. py_float tok = Inr v \<and>
             parse_rule_block rn block c p
               = Inr (p\<lparr>rules := rules p @ [SpacingCheck rn l opr v c]\<rparr>))))"
    by (rule check3_exact [where mk = "\<lambda>l opr v. SpacingCheck rn l opr v c", OF shape eq])
next
  assume h: "\<not> contains ''WIDTH'' block \<and> \<not> contains ''EXTERNAL'' block \<and>
    \<not> contains ''INTERNAL'' block \<and> contains ''ENC'' block"
  have shape: "\<And>x. re_search ENC_RE block = Some x \<Longrightarrow>
      \<exists>outer inner opr tok. x = [Some outer, Some inner, Some opr, Some tok]"
    by (rule enc_pattern_groups)
  have eq: "parse_rule_block rn block c p =
      (case re_search ENC_RE block of
         Some [Some outer, Some inner, Some opr, Some v] \<Rightarrow>
           (case py_float v of
              Inl e \<Rightarrow> Inl e
            | Inr x \<Rightarrow> Inr (append_rule (EnclosureCheck rn outer inner opr x c) p))
       | _ \<Rightarrow> Inr p)"
    using h by (simp add: parse_rule_block_def)
  show "(re_search ENC_RE block = None \<and> parse_rule_block rn block c p = Inr p) \<or>
      (\<exists>outer inner opr tok.
         re_search ENC_RE block = Some [Some outer, Some inner, Some opr, Some tok] \<and>
         ((py_float tok = Inl ValueError \<and> parse_rule_block rn block c p = Inl ValueError) \<or>
          (\<exists>v. py_float tok = Inr v \<and>
             parse_rule_block rn block c p
               = Inr (p\<lparr>rules := rules p @ [EnclosureCheck rn outer inner opr v c]\<rparr>))))"
    by (rule check4_exact [where mk = "\<lambda>a b opr v. EnclosureCheck rn a b opr v c", OF shape eq])
next
  assume "\<not> contains ''WIDTH'' block \<and> \<not> contains ''EXTERNAL'' block \<and>
    \<not> contains ''INTERNAL'' block \<and> \<not> contains ''ENC'' block"
  then show "parse_rule_block rn block c p = Inr p"
    by (simp add: parse_rule_block_def)
qed

theorem classifier_priority_witness:
  "contains ''WIDTH'' ''W1 { WIDTH M1 < 0.5 EXTERNAL M1 < 0.25 }'' \<and>
   contains ''EXTERNAL'' ''W1 { WIDTH M1 < 0.5 EXTERNAL M1 < 0.25 }'' \<and>
   parse_rule_block ''W1'' ''W1 { WIDTH M1 < 0.5 EXTERNAL M1 < 0.25 }'' None init_parser
     = Inr \<lparr>layers = [], rules = [WidthCheck ''W1'' ''M1'' ''<'' (Fin 1 2) None],
            current_rule_name = None\<rparr> \<and>
   \<not> contains ''WIDTH'' ''S1 { ENC V1 M1 > 0.5 EXTERNAL M1 < 0.25 }'' \<and>
   contains ''EXTERNAL'' ''S1 { ENC V1 M1 > 0.5 EXTERNAL M1 < 0.25 }'' \<and>
   parse_rule_block ''S1'' ''S1 { ENC V1 M1 > 0.5 EXTERNAL M1 < 0.25 }'' None init_parser
     = Inr \<lparr>layers = [], rules = [SpacingCheck ''S1'' ''M1'' ''<'' (Fin 1 4) None],
            current_rule_name = None\<rparr> \<and>
   contains ''INTERNAL'' ''S2 { ENC V1 M1 > 0.5 INTERNAL M1 < 0.25 }'' \<and>
   parse_rule_block ''S2'' ''S2 { ENC V1 M1 > 0.5 INTERNAL M1 < 0.25 }'' None init_parser
     = Inr \<lparr>layers = [], rules = [SpacingCheck ''S2'' ''M1'' ''<'' (Fin 1 4) None],
            current_rule_name = None\<rparr> \<and>
   contains ''ENC'' ''E1 { ENC V1 M1 > 0.5 }'' \<and>
   parse_rule_block ''E1'' ''E1 { ENC V1 M1 > 0.5 }'' None init_parser
     = Inr \<lparr>layers = [], rules = [EnclosureCheck ''E1'' ''V1'' ''M1'' ''>'' (Fin 1 2) None],
            current_rule_name = None\<rparr> \<and>
   \<not> contains ''ENC'' ''X1 { AREA M1 < 0.5 }'' \<and>
   parse_rule_block ''X1'' ''X1 { AREA M1 < 0.5 }'' None init_parser = Inr init_parser \<and>
   re_search WIDTH_RE ''W2 { WIDTH M1 < 1.2.3 }''
     = Some [Some ''M1'', Some ''<'', Some ''1.2.3''] \<and>
   parse_rule_block ''W2'' ''W2 { WIDTH M1 < 1.2.3 }'' None init_parser = Inl ValueError"
proof -
  let ?w = "''W1 { WIDTH M1 < 0.5 EXTERNAL M1 < 0.25 }''"
  let ?s = "''S1 { ENC V1 M1 > 0.5 EXTERNAL M1 < 0.25 }''"
  let ?i = "''S2 { ENC V1 M1 > 0.5 INTERNAL M1 < 0.25 }''"
  let ?e = "''E1 { ENC V1 M1 > 0.5 }''"
  let ?x = "''X1 { AREA M1 < 0.5 }''"
  let ?b = "''W2 { WIDTH M1 < 1.2.3 }''"
  have w: "contains ''WIDTH'' ?w \<and> contains ''EXTERNAL'' ?w"
    by code_simp
  have wm: "re_search WIDTH_RE ?w = Some [Some ''M1'', Some ''<'', Some ''0.5'']"
    by code_simp
  have s: "\<not> contains ''WIDTH'' ?s \<and> contains ''EXTERNAL'' ?s"
    by code_simp
  have sm: "re_search EXTERNAL_RE ?s = Some [Some ''M1'', Some ''<'', Some ''0.25'']"
    by code_simp
  have i: "\<not> contains ''WIDTH'' ?i \<and> \<not> contains ''EXTERNAL'' ?i \<and> contains ''INTERNAL'' ?i"
    by code_simp
  have im: "re_search INTERNAL_RE ?i = Some [Some ''M1'', Some ''<'', Some ''0.25'']"
    by code_simp
  have e: "\<not> contains ''WIDTH'' ?e \<and> \<not> contains ''EXTERNAL'' ?e \<and>
           \<not> contains ''INTERNAL'' ?e \<and> contains ''ENC'' ?e"
    by code_simp
  have em: "re_search ENC_RE ?e = Some [Some ''V1'', Some ''M1'', Some ''>'', Some ''0.5'']"
    by code_simp
  have x: "\<not> contains ''WIDTH'' ?x \<and> \<not> contains ''EXTERNAL'' ?x \<and>
           \<not> contains ''INTERNAL'' ?x \<and> \<not> contains ''ENC'' ?x"
    by code_simp
  have b: "contains ''WIDTH'' ?b"
    by code_simp
  have bm: "re_search WIDTH_RE ?b = Some [Some ''M1'', Some ''<'', Some ''1.2.3'']"
    by code_simp
  have half: "py_float ''0.5'' = Inr (Fin 1 2)"
    by code_simp
  have quarter: "py_float ''0.25'' = Inr (Fin 1 4)"
    by code_simp
  have bad: "py_float ''1.2.3'' = Inl ValueError"
    by code_simp
  from w wm half classifier_priority [of ?w "''W1''" None init_parser]
  have wr: "parse_rule_block ''W1'' ?w None init_parser
      = Inr \<lparr>layers = [], rules = [WidthCheck ''W1'' ''M1'' ''<'' (Fin 1 2) None],
             current_rule_name = None\<rparr>"
    by (simp add: init_parser_def)
  from s sm quarter classifier_priority [of ?s "''S1''" None init_parser]
  have sr: "parse_rule_block ''S1'' ?s None init_parser
      = Inr \<lparr>layers = [], rules = [SpacingCheck ''S1'' ''M1'' ''<'' (Fin 1 4) None],
             current_rule_name = None\<rparr>"
    by (simp add: init_parser_def)
  from i im quarter classifier_priority [of ?i "''S2''" None init_parser]
  have ir: "parse_rule_block ''S2'' ?i None init_parser
      = Inr \<lparr>layers = [], rules = [SpacingCheck ''S2'' ''M1'' ''<'' (Fin 1 4) None],
             current_rule_name = None\<rparr>"
    by (simp add: init_parser_def)
  from e em half classifier_priority [of ?e "''E1''" None init_parser]
  have er: "parse_rule_block ''E1'' ?e None init_parser
      = Inr \<lparr>layers = [], rules = [EnclosureCheck ''E1'' ''V1'' ''M1'' ''>'' (Fin 1 2) None],
             current_rule_name = None\<rparr>"
    by (simp add: init_parser_def)
  from x classifier_priority [of ?x "''X1''" None init_parser]
  have xr: "parse_rule_block ''X1'' ?x None init_parser = Inr init_parser"
    by blast
  from b bm bad classifier_priority [of ?b "''W2''" None init_parser]
  have br: "parse_rule_block ''W2'' ?b None init_parser = Inl ValueError"
    by simp
  from w wr s sr i ir e er x xr bm br show ?thesis
    by blast
qed

text \<open>
  C10. Keyword shadowing: a block whose text contains WIDTH anywhere but does not match the
  width pattern yields no node, whatever else the block holds (the statement puts no
  condition on the lower-priority patterns, so it covers a well-formed EXTERNAL, INTERNAL or
  ENC body); likewise EXTERNAL shadows INTERNAL and ENC, and INTERNAL shadows ENC.
\<close>

theorem keyword_shadowing:
  "(contains ''WIDTH'' block \<and> re_search WIDTH_RE block = None \<longrightarrow>
      parse_rule_block rn block c p = Inr p) \<and>
   (\<not> contains ''WIDTH'' block \<and> contains ''EXTERNAL'' block \<and>
    re_search EXTERNAL_RE block = None \<longrightarrow>
      parse_rule_block rn block c p = Inr p) \<and>
   (\<not> contains ''WIDTH'' block \<and> \<not> contains ''EXTERNAL'' block \<and>
    contains ''INTERNAL'' block \<and> re_search INTERNAL_RE block = None \<longrightarrow>
      parse_rule_block rn block c p = Inr p)"
  by (simp add: parse_rule_block_def)

theorem keyword_shadowing_witness:
  "contains ''WIDTH'' ''MIN_WIDTH_SP { EXTERNAL M1 < 0.5 }'' \<and>
   re_search WIDTH_RE ''MIN_WIDTH_SP { EXTERNAL M1 < 0.5 }'' = None \<and>
   re_search EXTERNAL_RE ''MIN_WIDTH_SP { EXTERNAL M1 < 0.5 }''
     = Some [Some ''M1'', Some ''<'', Some ''0.5''] \<and>
   parse_rule_block ''MIN_WIDTH_SP'' ''MIN_WIDTH_SP { EXTERNAL M1 < 0.5 }'' None init_parser
     = Inr init_parser \<and>
   \<not> contains ''WIDTH'' ''EXTERNAL_SP { INTERNAL M1 < 0.5 }'' \<and>
   contains ''EXTERNAL'' ''EXTERNAL_SP { INTERNAL M1 < 0.5 }'' \<and>
   re_search EXTERNAL_RE ''EXTERNAL_SP { INTERNAL M1 < 0.5 }'' = None \<and>
   re_search INTERNAL_RE ''EXTERNAL_SP { INTERNAL M1 < 0.5 }''
     = Some [Some ''M1'', Some ''<'', Some ''0.5''] \<and>
   parse_rule_block ''EXTERNAL_SP'' ''EXTERNAL_SP { INTERNAL M1 < 0.5 }'' None init_parser
     = Inr init_parser \<and>
   \<not> contains ''WIDTH'' ''E1 { @ INTERNAL rule'' \<and>
   \<not> contains ''EXTERNAL'' ''E1 { @ INTERNAL rule'' \<and>
   contains ''INTERNAL'' (''E1 { @ INTERNAL rule'' @ NL @ ''ENC V1 M1 > 0.1 }'') \<and>
   re_search INTERNAL_RE (''E1 { @ INTERNAL rule'' @ NL @ ''ENC V1 M1 > 0.1 }'') = None \<and>
   re_search ENC_RE (''E1 { @ INTERNAL rule'' @ NL @ ''ENC V1 M1 > 0.1 }'')
     = Some [Some ''V1'', Some ''M1'', Some ''>'', Some ''0.1''] \<and>
   parse_rule_block ''E1'' (''E1 { @ INTERNAL rule'' @ NL @ ''ENC V1 M1 > 0.1 }'')
     (Some ''INTERNAL rule'') init_parser = Inr init_parser \<and>
   parse_file ''MIN_WIDTH_SP { EXTERNAL M1 < 0.5 }''
     = Inr \<lparr>layers = [], rules = [], current_rule_name = Some ''MIN_WIDTH_SP''\<rparr>"
proof -
  let ?b1 = "''MIN_WIDTH_SP { EXTERNAL M1 < 0.5 }''"
  let ?b2 = "''EXTERNAL_SP { INTERNAL M1 < 0.5 }''"
  let ?b3 = "''E1 { @ INTERNAL rule'' @ NL @ ''ENC V1 M1 > 0.1 }''"
  have h1: "contains ''WIDTH'' ?b1 \<and> re_search WIDTH_RE ?b1 = None"
    by code_simp
  have e1: "re_search EXTERNAL_RE ?b1 = Some [Some ''M1'', Some ''<'', Some ''0.5'']"
    by code_simp
  have h2: "\<not> contains ''WIDTH'' ?b2 \<and> contains ''EXTERNAL'' ?b2 \<and>
            re_search EXTERNAL_RE ?b2 = None"
    by code_simp
  have e2: "re_search INTERNAL_RE ?b2 = Some [Some ''M1'', Some ''<'', Some ''0.5'']"
    by code_simp
  have h3: "\<not> contains ''WIDTH'' ?b3 \<and> \<not> contains ''EXTERNAL'' ?b3 \<and>
            contains ''INTERNAL'' ?b3 \<and> re_search INTERNAL_RE ?b3 = None"
    by code_simp
  have h3': "\<not> contains ''WIDTH'' ''E1 { @ INTERNAL rule'' \<and>
             \<not> contains ''EXTERNAL'' ''E1 { @ INTERNAL rule''"
    by code_simp
  have e3: "re_search ENC_RE ?b3 = Some [Some ''V1'', Some ''M1'', Some ''>'', Some ''0.1'']"
    by code_simp
  have f: "parse_file ''MIN_WIDTH_SP { EXTERNAL M1 < 0.5 }''
     = Inr \<lparr>layers = [], rules = [], current_rule_name = Some ''MIN_WIDTH_SP''\<rparr>"
    by code_simp
  from h1 keyword_shadowing [of ?b1 "''MIN_WIDTH_SP''" None init_parser]
  have r1: "parse_rule_block ''MIN_WIDTH_SP'' ?b1 None init_parser = Inr init_parser"
    by blast
  from h2 keyword_shadowing [of ?b2 "''EXTERNAL_SP''" None init_parser]
  have r2: "parse_rule_block ''EXTERNAL_SP'' ?b2 None init_parser = Inr init_parser"
    by blast
  from h3 keyword_shadowing [of ?b3 "''E1''" "Some ''INTERNAL rule''" init_parser]
  have r3: "parse_rule_block ''E1'' ?b3 (Some ''INTERNAL rule'') init_parser = Inr init_parser"
    by blast
  from h1 e1 r1 h2 e2 r2 h3 h3' e3 r3 f show ?thesis
    by blast
qed

section \<open>Determinism of generation\<close>

lemma list_append_at:
  "a < length s \<Longrightarrow> s ! a = StrList xs \<Longrightarrow> list_append a x s = s[a := StrList (xs @ [x])]"
  by (simp add: list_append_def)

lemma fold_list_append:
  "a < length s \<Longrightarrow> s ! a = StrList xs \<Longrightarrow>
     fold (\<lambda>y. list_append a (f y)) ys s = s[a := StrList (xs @ map f ys)]"
proof (induction ys arbitrary: s xs)
  case Nil
  then have "s[a := StrList xs] = s"
    by (metis list_update_id)
  then show ?case
    by simp
next
  case (Cons y ys)
  from Cons.prems have "list_append a (f y) s = s[a := StrList (xs @ [f y])]"
    by (rule list_append_at)
  moreover have "fold (\<lambda>y. list_append a (f y)) ys (s[a := StrList (xs @ [f y])])
      = (s[a := StrList (xs @ [f y])])[a := StrList ((xs @ [f y]) @ map f ys)]"
    using Cons.prems by (intro Cons.IH) simp_all
  ultimately show ?case
    by simp
qed

lemma fold_list_append2:
  "a < length s \<Longrightarrow> s ! a = StrList xs \<Longrightarrow>
     fold (\<lambda>y s. list_append a [] (list_append a (f y) s)) ys s
       = s[a := StrList (xs @ concat (map (\<lambda>y. [f y, []]) ys))]"
proof (induction ys arbitrary: s xs)
  case Nil
  then have "s[a := StrList xs] = s"
    by (metis list_update_id)
  then show ?case
    by simp
next
  case (Cons y ys)
  from Cons.prems have "list_append a [] (list_append a (f y) s) = s[a := StrList (xs @ [f y, []])]"
    by (simp add: list_append_at)
  moreover have "fold (\<lambda>y s. list_append a [] (list_append a (f y) s)) ys
        (s[a := StrList (xs @ [f y, []])])
      = (s[a := StrList (xs @ [f y, []])])
          [a := StrList ((xs @ [f y, []]) @ concat (map (\<lambda>y. [f y, []]) ys))]"
    using Cons.prems by (intro Cons.IH) simp_all
  ultimately show ?case
    by simp
qed

lemma generate_layers_m_run:
  assumes "la < length s" and "s ! la = LayerDict ld"
  shows "generate_layers_m g la s =
    (generate_layers ld,
     s @ [StrList ([BAR, ''// LAYER DEFINITIONS'', BAR @ NL]
                   @ map LayerDef_to_pxl (sort_key gds_layer (map snd ld)) @ [[]]),
          LayerList (sort_key gds_layer (map snd ld))])"
proof -
  let ?srt = "sort_key gds_layer (map snd ld)"
  let ?hd = "[BAR, ''// LAYER DEFINITIONS'', BAR @ NL]"
  let ?s4 = "s @ [StrList ?hd]"
  let ?s5 = "s @ [StrList ?hd, LayerList ?srt]"
  let ?s6 = "s @ [StrList (?hd @ map LayerDef_to_pxl ?srt), LayerList ?srt]"
  let ?s7 = "s @ [StrList (?hd @ map LayerDef_to_pxl ?srt @ [[]]), LayerList ?srt]"
  have s4: "list_append (length s) (BAR @ NL)
       (list_append (length s) ''// LAYER DEFINITIONS''
         (list_append (length s) BAR (s @ [StrList []]))) = ?s4"
    by (simp add: list_append_def)
  have dv: "dict_values la ?s4 = map snd ld"
    using assms by (simp add: dict_values_def nth_append)
  have ll: "layer_list (length ?s4) (?s4 @ [LayerList ?srt]) = ?srt"
    by (simp add: layer_list_def nth_append)
  have "fold (\<lambda>layer. list_append (length s) (LayerDef_to_pxl layer)) ?srt ?s5
      = ?s5[length s := StrList (?hd @ map LayerDef_to_pxl ?srt)]"
    by (rule fold_list_append) (simp_all add: nth_append)
  then have s6: "fold (\<lambda>layer. list_append (length s) (LayerDef_to_pxl layer)) ?srt
      (?s4 @ [LayerList ?srt]) = ?s6"
    by (simp add: list_update_append)
  have s7: "list_append (length s) [] ?s6 = ?s7"
    by (simp add: list_append_def nth_append list_update_append)
  have out: "str_list (length s) ?s7 = ?hd @ map LayerDef_to_pxl ?srt @ [[]]"
    by (simp add: str_list_def nth_append)
  have "generate_layers_m g la s = (join NL (str_list (length s) ?s7), ?s7)"
    by (simp only: generate_layers_m_def new_obj_def Let_def split_conv s4 dv ll s6 s7)
  then show ?thesis
    by (simp only: out generate_layers_def)
qed

lemma generate_rules_m_run:
  assumes "ra < length s" and "s ! ra = NodeList rs"
  shows "generate_rules_m g ra s =
    (generate_rules rs,
     s @ [StrList ([BAR, ''// DRC RULES'', BAR @ NL] @ concat (map (\<lambda>r. [to_pxl r, []]) rs))])"
proof -
  let ?hd = "[BAR, ''// DRC RULES'', BAR @ NL]"
  let ?s4 = "s @ [StrList ?hd]"
  let ?s5 = "s @ [StrList (?hd @ concat (map (\<lambda>r. [to_pxl r, []]) rs))]"
  have s4: "list_append (length s) (BAR @ NL)
       (list_append (length s) ''// DRC RULES''
         (list_append (length s) BAR (s @ [StrList []]))) = ?s4"
    by (simp add: list_append_def)
  have nl: "node_list ra ?s4 = rs"
    using assms by (simp add: node_list_def nth_append)
  have "fold (\<lambda>rule st. list_append (length s) [] (list_append (length s) (to_pxl rule) st)) rs ?s4
      = ?s4[length s := StrList (?hd @ concat (map (\<lambda>r. [to_pxl r, []]) rs))]"
    by (rule fold_list_append2) (simp_all add: nth_append)
  then have s5: "fold (\<lambda>rule st. list_append (length s) []
        (list_append (length s) (to_pxl rule) st)) rs ?s4 = ?s5"
    by simp
  have out: "str_list (length s) ?s5 = ?hd @ concat (map (\<lambda>r. [to_pxl r, []]) rs)"
    by (simp add: str_list_def nth_append)
  have "generate_rules_m g ra s = (join NL (str_list (length s) ?s5), ?s5)"
    by (simp only: generate_rules_m_def new_obj_def Let_def split_conv s4 nl s5)
  then show ?thesis
    by (simp only: out generate_rules_def)
qed


lemma generate_m_run:
  assumes "p < length s" and "s ! p = ParserObj la ra crn"
    and "la < length s" and "s ! la = LayerDict ld"
    and "ra < length s" and "s ! ra = NodeList rs"
  shows "generate_m g p s =
    (generate \<lparr>layers = ld, rules = rs, current_rule_name = crn\<rparr>,
     s @ [StrList [generate_header, generate_layers ld, generate_rules rs, generate_footer],
          StrList ([BAR, ''// LAYER DEFINITIONS'', BAR @ NL]
                   @ map LayerDef_to_pxl (sort_key gds_layer (map snd ld)) @ [[]]),
          LayerList (sort_key gds_layer (map snd ld)),
          StrList ([BAR, ''// DRC RULES'', BAR @ NL]
                   @ concat (map (\<lambda>r. [to_pxl r, []]) rs))])"
proof -
  let ?l1 = "StrList ([BAR, ''// LAYER DEFINITIONS'', BAR @ NL]
                   @ map LayerDef_to_pxl (sort_key gds_layer (map snd ld)) @ [[]])"
  let ?srt = "LayerList (sort_key gds_layer (map snd ld))"
  let ?l2 = "StrList ([BAR, ''// DRC RULES'', BAR @ NL] @ concat (map (\<lambda>r. [to_pxl r, []]) rs))"
  let ?s2 = "s @ [StrList [generate_header]]"
  let ?s3 = "?s2 @ [?l1, ?srt]"
  let ?s4 = "s @ [StrList [generate_header, generate_layers ld], ?l1, ?srt]"
  let ?s5 = "?s4 @ [?l2]"
  let ?s7 = "s @ [StrList [generate_header, generate_layers ld, generate_rules rs,
                           generate_footer], ?l1, ?srt, ?l2]"
  have s2: "list_append (length s) generate_header (s @ [StrList []]) = ?s2"
    by (simp add: list_append_def)
  have pl: "parser_layers p ?s2 = la"
    using assms by (simp add: parser_layers_def nth_append)
  have gl: "generate_layers_m g la ?s2 = (generate_layers ld, ?s3)"
    using assms by (intro generate_layers_m_run) (simp_all add: nth_append)
  have s4: "list_append (length s) (generate_layers ld) ?s3 = ?s4"
    by (simp add: list_append_def nth_append list_update_append)
  have pr: "parser_rules p ?s4 = ra"
    using assms by (simp add: parser_rules_def nth_append)
  have gr: "generate_rules_m g ra ?s4 = (generate_rules rs, ?s5)"
    using assms by (intro generate_rules_m_run) (simp_all add: nth_append)
  have s7: "list_append (length s) generate_footer
      (list_append (length s) (generate_rules rs) ?s5) = ?s7"
    by (simp add: list_append_def nth_append list_update_append)
  have out: "str_list (length s) ?s7
      = [generate_header, generate_layers ld, generate_rules rs, generate_footer]"
    by (simp add: str_list_def nth_append)
  have "generate_m g p s = (join NL (str_list (length s) ?s7), ?s7)"
    by (simp only: generate_m_def new_obj_def Let_def split_conv s2 pl gl s4 pr gr s7)
  then show ?thesis
    by (simp only: out generate_def parser.simps)
qed

text \<open>
  C7. Generation is deterministic and changes no object that existed before it. On a store
  that holds a parser with its dictionary of layers and its list of rules, \<open>generate\<close>
  returns the text that the deck determines, leaves every object of the store as it was (the
  parser, its dictionary, its list and the generator among them) and allocates four lists of
  its own, the only objects it writes to; a second invocation, on the store the first one
  left, returns the same text.
\<close>

theorem generate_idempotent:
  assumes "p < length s" and "s ! p = ParserObj la ra crn"
    and "la < length s" and "s ! la = LayerDict ld"
    and "ra < length s" and "s ! ra = NodeList rs"
  shows "fst (generate_m g p s) = generate \<lparr>layers = ld, rules = rs, current_rule_name = crn\<rparr> \<and>
         take (length s) (snd (generate_m g p s)) = s \<and>
         length (snd (generate_m g p s)) = length s + 4 \<and>
         fst (generate_m g p (snd (generate_m g p s))) = fst (generate_m g p s)"
proof -
  let ?new = "[StrList [generate_header, generate_layers ld, generate_rules rs, generate_footer],
          StrList ([BAR, ''// LAYER DEFINITIONS'', BAR @ NL]
                   @ map LayerDef_to_pxl (sort_key gds_layer (map snd ld)) @ [[]]),
          LayerList (sort_key gds_layer (map snd ld)),
          StrList ([BAR, ''// DRC RULES'', BAR @ NL]
                   @ concat (map (\<lambda>r. [to_pxl r, []]) rs))]"
  let ?deck = "\<lparr>layers = ld, rules = rs, current_rule_name = crn\<rparr>"
  from assms have first: "generate_m g p s = (generate ?deck, s @ ?new)"
    by (rule generate_m_run)
  have "generate_m g p (s @ ?new) = (generate ?deck, (s @ ?new) @ ?new)"
  proof (rule generate_m_run)
    from assms show "p < length (s @ ?new)" "la < length (s @ ?new)" "ra < length (s @ ?new)"
      by simp_all
    from assms show "(s @ ?new) ! p = ParserObj la ra crn" "(s @ ?new) ! la = LayerDict ld"
        "(s @ ?new) ! ra = NodeList rs"
      by (simp_all only: nth_append if_True)
  qed
  with first show ?thesis
    by simp
qed

theorem generate_idempotent_witness:
  "fst (generate_m 0 2
          [GeneratorObj 1, StrList [], ParserObj 3 4 None,
           LayerDict [(''M1'', \<lparr>name = ''M1'', gds_layer = 10, gds_datatype = 0\<rparr>)],
           NodeList [BooleanOp ''R'' ''AND'' ''A'' (Some ''B'') None]])
     = generate \<lparr>layers = [(''M1'', \<lparr>name = ''M1'', gds_layer = 10, gds_datatype = 0\<rparr>)],
                 rules = [BooleanOp ''R'' ''AND'' ''A'' (Some ''B'') None],
                 current_rule_name = None\<rparr> \<and>
   take 5 (snd (generate_m 0 2
          [GeneratorObj 1, StrList [], ParserObj 3 4 None,
           LayerDict [(''M1'', \<lparr>name = ''M1'', gds_layer = 10, gds_datatype = 0\<rparr>)],
           NodeList [BooleanOp ''R'' ''AND'' ''A'' (Some ''B'') None]]))
     = [GeneratorObj 1, StrList [], ParserObj 3 4 None,
        LayerDict [(''M1'', \<lparr>name = ''M1'', gds_layer = 10, gds_datatype = 0\<rparr>)],
        NodeList [BooleanOp ''R'' ''AND'' ''A'' (Some ''B'') None]] \<and>
   length (snd (generate_m 0 2
          [GeneratorObj 1, StrList [], ParserObj 3 4 None,
           LayerDict [(''M1'', \<lparr>name = ''M1'', gds_layer = 10, gds_datatype = 0\<rparr>)],
           NodeList [BooleanOp ''R'' ''AND'' ''A'' (Some ''B'') None]])) = 9 \<and>
   fst (generate_m 0 2 (snd (generate_m 0 2
          [GeneratorObj 1, StrList [], ParserObj 3 4 None,
           LayerDict [(''M1'', \<lparr>name = ''M1'', gds_layer = 10, gds_datatype = 0\<rparr>)],
           NodeList [BooleanOp ''R'' ''AND'' ''A'' (Some ''B'') None]])))
     = fst (generate_m 0 2
          [GeneratorObj 1, StrList [], ParserObj 3 4 None,
           LayerDict [(''M1'', \<lparr>name = ''M1'', gds_layer = 10, gds_datatype = 0\<rparr>)],
           NodeList [BooleanOp ''R'' ''AND'' ''A'' (Some ''B'') None]])"
proof -
  let ?s = "[GeneratorObj 1, StrList [], ParserObj 3 4 None,
           LayerDict [(''M1'', \<lparr>name = ''M1'', gds_layer = 10, gds_datatype = 0\<rparr>)],
           NodeList [BooleanOp ''R'' ''AND'' ''A'' (Some ''B'') None]]"
  have h: "(2::nat) < length ?s" "?s ! 2 = ParserObj 3 4 None" "(3::nat) < length ?s"
      "?s ! 3 = LayerDict [(''M1'', \<lparr>name = ''M1'', gds_layer = 10, gds_datatype = 0\<rparr>)]"
      "(4::nat) < length ?s" "?s ! 4 = NodeList [BooleanOp ''R'' ''AND'' ''A'' (Some ''B'') None]"
    by simp_all
  have "length ?s = 5"
    by simp
  with generate_idempotent [OF h, of 0] show ?thesis
    by (simp only:) simp
qed

section \<open>Rendering of a width check\<close>

lemma join_snoc: "xs \<noteq> [] \<Longrightarrow> join sep (xs @ [y]) = join sep xs @ sep @ y"
  by (induction sep xs rule: join.induct) auto

text \<open>
  C6, as amended. For every WidthCheck parsed from a block (the width pattern matches with
  layer, operator and value token, and the token converts to a float), the rendering ends
  with the registration call \<open>drc_deck(rule_violations, "rule", "Width violation: op valueum");\<close>
  whose rule-name argument is the rule name and whose description holds the operator as
  written and the value as Python prints the parsed float, the shortest decimal that reads
  back as the same float.
\<close>

theorem width_registration:
  assumes "contains ''WIDTH'' block"
    and "re_search WIDTH_RE block = Some [Some l, Some opr, Some tok]"
    and "py_float tok = Inr v"
  shows "parse_rule_block rn block c p = Inr (append_rule (WidthCheck rn l opr v c) p) \<and>
    (\<exists>pre. to_pxl (WidthCheck rn l opr v c) =
       pre @ NL @ ''drc_deck('' @ rn @ ''_violations, '' @ DQ @ rn @ DQ @ '', '' @ DQ @
       ''Width violation: '' @ opr @ '' '' @ float_repr v @ ''um'' @ DQ @ '');'')"
proof
  show "parse_rule_block rn block c p = Inr (append_rule (WidthCheck rn l opr v c) p)"
    using assms by (simp add: parse_rule_block_def)
next
  let ?m = "rn @ ''_violations = width('' @ l @ '') '' @ opr @ '' '' @ float_repr v @ '';''"
  have "to_pxl (WidthCheck rn l opr v c) =
      join NL (comment_lines c @ [?m]) @ NL @ ''drc_deck('' @ rn @ ''_violations, '' @ DQ @ rn
      @ DQ @ '', '' @ DQ @ ''Width violation: '' @ opr @ '' '' @ float_repr v @ ''um'' @ DQ @ '');''"
    using join_snoc [of "comment_lines c @ [?m]" NL]
    by (simp add: Let_def)
  then show "\<exists>pre. to_pxl (WidthCheck rn l opr v c) =
       pre @ NL @ ''drc_deck('' @ rn @ ''_violations, '' @ DQ @ rn @ DQ @ '', '' @ DQ @
       ''Width violation: '' @ opr @ '' '' @ float_repr v @ ''um'' @ DQ @ '');''"
    by blast
qed

theorem width_registration_witness:
  "contains ''WIDTH'' ''W1 { WIDTH M1 < 0.5 }'' \<and>
   re_search WIDTH_RE ''W1 { WIDTH M1 < 0.5 }'' = Some [Some ''M1'', Some ''<'', Some ''0.5''] \<and>
   py_float ''0.5'' = Inr (Fin 1 2) \<and>
   float_repr (Fin 1 2) = ''0.5'' \<and>
   parse_rule_block ''W1'' ''W1 { WIDTH M1 < 0.5 }'' None init_parser
     = Inr (append_rule (WidthCheck ''W1'' ''M1'' ''<'' (Fin 1 2) None) init_parser) \<and>
   (\<exists>pre. to_pxl (WidthCheck ''W1'' ''M1'' ''<'' (Fin 1 2) None) =
       pre @ NL @ ''drc_deck('' @ ''W1'' @ ''_violations, '' @ DQ @ ''W1'' @ DQ @ '', '' @ DQ @
       ''Width violation: '' @ ''<'' @ '' '' @ float_repr (Fin 1 2) @ ''um'' @ DQ @ '');'')"
proof -
  have h1: "contains ''WIDTH'' ''W1 { WIDTH M1 < 0.5 }''"
    by code_simp
  have h2: "re_search WIDTH_RE ''W1 { WIDTH M1 < 0.5 }''
              = Some [Some ''M1'', Some ''<'', Some ''0.5'']"
    by code_simp
  have h3: "py_float ''0.5'' = Inr (Fin 1 2)"
    by code_simp
  have h4: "float_repr (Fin 1 2) = ''0.5''"
    by code_simp
  from width_registration [OF h1 h2 h3, of "''W1''" None init_parser] h1 h2 h3 h4
  show ?thesis
    by blast
qed

text \<open>
  C6 as stated fails: the token \<open>0.50\<close> is stored as the float 0.5 and rendered \<open>0.5\<close>; the
  text \<open>0.50\<close> occurs nowhere in the output.
\<close>

theorem width_value_counterexample:
  "parse_file ''W1 { WIDTH M1 < 0.50 }''
     = Inr \<lparr>layers = [], rules = [WidthCheck ''W1'' ''M1'' ''<'' (Fin 1 2) None],
            current_rule_name = Some ''W1''\<rparr> \<and>
   to_pxl (WidthCheck ''W1'' ''M1'' ''<'' (Fin 1 2) None)
     = ''W1_violations = width(M1) < 0.5;'' @ NL @
       ''drc_deck(W1_violations, '' @ DQ @ ''W1'' @ DQ @ '', '' @ DQ @
       ''Width violation: < 0.5um'' @ DQ @ '');'' \<and>
   \<not> contains ''0.50'' (to_pxl (WidthCheck ''W1'' ''M1'' ''<'' (Fin 1 2) None))"
  by code_simp

section \<open>Exit codes of the driver\<close>

lemma parse_loop_raises:
  "i < length lines \<Longrightarrow> loop_body lines i p = Inl err \<Longrightarrow> parse_loop lines i p = Inl err"
  by (subst parse_loop.simps) simp

lemma parse_loop_step:
  "i < length lines \<Longrightarrow> loop_body lines i p = Inr (j, p1) \<Longrightarrow>
     parse_loop lines i p = parse_loop lines j p1"
  by (subst parse_loop.simps) simp

lemma parse_loop_done: "\<not> i < length lines \<Longrightarrow> parse_loop lines i p = Inr p"
  by (subst parse_loop.simps) simp

lemma parse_loop_unfold:
  "parse_loop lines i p = Inl err \<longleftrightarrow>
     i < length lines \<and>
     (loop_body lines i p = Inl err \<or>
      (\<exists>j p1. loop_body lines i p = Inr (j, p1) \<and> parse_loop lines j p1 = Inl err))"
proof (cases "i < length lines")
  case False
  then show ?thesis
    by (simp add: parse_loop_done)
next
  case True
  show ?thesis
  proof (cases "loop_body lines i p")
    case (Inl e)
    with True show ?thesis
      by (simp add: parse_loop_raises)
  next
    case (Inr r)
    obtain j p1 where "r = (j, p1)"
      by (cases r)
    with True Inr show ?thesis
      by (simp add: parse_loop_step)
  qed
qed

lemma parse_loop_trace:
  "tr \<noteq> [] \<Longrightarrow>
   (\<forall>k. Suc k < length tr \<longrightarrow>
      fst (tr ! k) < length lines \<and>
      loop_body lines (fst (tr ! k)) (snd (tr ! k)) = Inr (tr ! Suc k)) \<Longrightarrow>
   fst (last tr) < length lines \<Longrightarrow>
   loop_body lines (fst (last tr)) (snd (last tr)) = Inl err \<Longrightarrow>
   parse_loop lines (fst (hd tr)) (snd (hd tr)) = Inl err"
proof (induction tr)
  case Nil
  then show ?case
    by simp
next
  case (Cons x tr)
  show ?case
  proof (cases tr)
    case Nil
    with Cons.prems show ?thesis
      by (simp add: parse_loop_raises)
  next
    case (Cons y ys)
    from Cons.prems(2) [rule_format, of 0] Cons
    have first: "fst x < length lines" "loop_body lines (fst x) (snd x) = Inr y"
      by simp_all
    have chain: "\<forall>k. Suc k < length tr \<longrightarrow>
        fst (tr ! k) < length lines \<and>
        loop_body lines (fst (tr ! k)) (snd (tr ! k)) = Inr (tr ! Suc k)"
    proof (intro allI impI)
      fix k
      assume "Suc k < length tr"
      with Cons.prems(2) [rule_format, of "Suc k"]
      show "fst (tr ! k) < length lines \<and>
          loop_body lines (fst (tr ! k)) (snd (tr ! k)) = Inr (tr ! Suc k)"
        by simp
    qed
    from Cons Cons.prems have "tr \<noteq> []" "fst (last tr) < length lines"
        "loop_body lines (fst (last tr)) (snd (last tr)) = Inl err"
      by simp_all
    with chain have "parse_loop lines (fst (hd tr)) (snd (hd tr)) = Inl err"
      by (intro Cons.IH)
    with Cons have "parse_loop lines (fst y) (snd y) = Inl err"
      by simp
    moreover from first have "parse_loop lines (fst x) (snd x) = parse_loop lines (fst y) (snd y)"
      by (intro parse_loop_step) simp_all
    ultimately show ?thesis
      by simp
  qed
qed

lemma check3_raises:
  fixes g :: "groups option" and mk :: "string \<Rightarrow> string \<Rightarrow> pyfloat \<Rightarrow> node" and p :: parser
  assumes r: "r = (case g of
       Some [Some l, Some opr, Some v] \<Rightarrow>
         (case py_float v of Inl e \<Rightarrow> Inl e | Inr x \<Rightarrow> Inr (append_rule (mk l opr x) p))
     | _ \<Rightarrow> Inr p)"
  shows "r = Inl err \<longleftrightarrow>
     err = ValueError \<and>
     (\<exists>l opr tok. g = Some [Some l, Some opr, Some tok] \<and> py_float tok = Inl ValueError)"
proof (cases "\<exists>a b c. g = Some [Some a, Some b, Some c]")
  case True
  then obtain a b c where g: "g = Some [Some a, Some b, Some c]"
    by blast
  show ?thesis
  proof (cases "py_float c")
    case (Inl e)
    then have "e = ValueError"
      by (rule py_float_error)
    with Inl g r show ?thesis
      by auto
  next
    case (Inr v)
    with g r show ?thesis
      by simp
  qed
next
  case False
  then have "r = Inr p"
    unfolding r by (rule groups3_nomatch)
  with False show ?thesis
    by auto
qed

lemma check4_raises:
  fixes g :: "groups option" and mk :: "string \<Rightarrow> string \<Rightarrow> string \<Rightarrow> pyfloat \<Rightarrow> node"
    and p :: parser
  assumes r: "r = (case g of
       Some [Some a, Some b, Some opr, Some v] \<Rightarrow>
         (case py_float v of Inl e \<Rightarrow> Inl e | Inr x \<Rightarrow> Inr (append_rule (mk a b opr x) p))
     | _ \<Rightarrow> Inr p)"
  shows "r = Inl err \<longleftrightarrow>
     err = ValueError \<and>
     (\<exists>a b opr tok. g = Some [Some a, Some b, Some opr, Some tok] \<and>
        py_float tok = Inl ValueError)"
proof (cases "\<exists>a b c d. g = Some [Some a, Some b, Some c, Some d]")
  case True
  then obtain a b c d where g: "g = Some [Some a, Some b, Some c, Some d]"
    by blast
  show ?thesis
  proof (cases "py_float d")
    case (Inl e)
    then have "e = ValueError"
      by (rule py_float_error)
    with Inl g r show ?thesis
      by auto
  next
    case (Inr v)
    with g r show ?thesis
      by simp
  qed
next
  case False
  then have "r = Inr p"
    unfolding r by (rule groups4_nomatch)
  with False show ?thesis
    by auto
qed

lemma parse_rule_block_raises:
  "parse_rule_block rn block c p = Inl err \<longleftrightarrow>
     err = ValueError \<and>
     ((contains ''WIDTH'' block \<and>
       (\<exists>l opr tok. re_search WIDTH_RE block = Some [Some l, Some opr, Some tok] \<and>
          py_float tok = Inl ValueError)) \<or>
      (\<not> contains ''WIDTH'' block \<and> contains ''EXTERNAL'' block \<and>
       (\<exists>l opr tok. re_search EXTERNAL_RE block = Some [Some l, Some opr, Some tok] \<and>
          py_float tok = Inl ValueError)) \<or>
      (\<not> contains ''WIDTH'' block \<and> \<not> contains ''EXTERNAL'' block \<and>
       contains ''INTERNAL'' block \<and>
       (\<exists>l opr tok. re_search INTERNAL_RE block = Some [Some l, Some opr, Some tok] \<and>
          py_float tok = Inl ValueError)) \<or>
      (\<not> contains ''WIDTH'' block \<and> \<not> contains ''EXTERNAL'' block \<and>
       \<not> contains ''INTERNAL'' block \<and> contains ''ENC'' block \<and>
       (\<exists>outer inner opr tok.
          re_search ENC_RE block = Some [Some outer, Some inner, Some opr, Some tok] \<and>
          py_float tok = Inl ValueError)))"
proof -
  consider (w) "contains ''WIDTH'' block"
    | (e) "\<not> contains ''WIDTH'' block" "contains ''EXTERNAL'' block"
    | (i) "\<not> contains ''WIDTH'' block" "\<not> contains ''EXTERNAL'' block"
          "contains ''INTERNAL'' block"
    | (n) "\<not> contains ''WIDTH'' block" "\<not> contains ''EXTERNAL'' block"
          "\<not> contains ''INTERNAL'' block" "contains ''ENC'' block"
    | (none) "\<not> contains ''WIDTH'' block" "\<not> contains ''EXTERNAL'' block"
          "\<not> contains ''INTERNAL'' block" "\<not> contains ''ENC'' block"
    by blast
  then show ?thesis
  proof cases
    case w
    then have "parse_rule_block rn block c p =
        (case re_search WIDTH_RE block of
           Some [Some l, Some opr, Some v] \<Rightarrow>
             (case py_float v of
                Inl e \<Rightarrow> Inl e
              | Inr x \<Rightarrow> Inr (append_rule (WidthCheck rn l opr x c) p))
         | _ \<Rightarrow> Inr p)"
      by (simp add: parse_rule_block_def)
    from check3_raises [where mk = "\<lambda>l opr v. WidthCheck rn l opr v c", OF this, of err] w
    show ?thesis
      by simp
  next
    case e
    then have "parse_rule_block rn block c p =
        (case re_search EXTERNAL_RE block of
           Some [Some l, Some opr, Some v] \<Rightarrow>
             (case py_float v of
                Inl e \<Rightarrow> Inl e
              | Inr x \<Rightarrow> Inr (append_rule (SpacingCheck rn l opr x c) p))
         | _ \<Rightarrow> Inr p)"
      by (simp add: parse_rule_block_def)
    from check3_raises [where mk = "\<lambda>l opr v. SpacingCheck rn l opr v c", OF this, of err] e
    show ?thesis
      by simp
  next
    case i
    then have "parse_rule_block rn block c p =
        (case re_search INTERNAL_RE block of
           Some [Some l, Some opr, Some v] \<Rightarrow>
             (case py_float v of
                Inl e \<Rightarrow> Inl e
              | Inr x \<Rightarrow> Inr (append_rule (SpacingCheck rn l opr x c) p))
         | _ \<Rightarrow> Inr p)"
      by (simp add: parse_rule_block_def)
    from check3_raises [where mk = "\<lambda>l opr v. SpacingCheck rn l opr v c", OF this, of err] i
    show ?thesis
      by simp
  next
    case n
    then have "parse_rule_block rn block c p =
        (case re_search ENC_RE block of
           Some [Some outer, Some inner, Some opr, Some v] \<Rightarrow>
             (case py_float v of
                Inl e \<Rightarrow> Inl e
              | Inr x \<Rightarrow> Inr (append_rule (EnclosureCheck rn outer inner opr x c) p))
         | _ \<Rightarrow> Inr p)"
      by (simp add: parse_rule_block_def)
    from check4_raises [where mk = "\<lambda>a b opr v. EnclosureCheck rn a b opr v c", OF this, of err] n
    show ?thesis
      by simp
  next
    case none
    then show ?thesis
      by (simp add: parse_rule_block_def)
  qed
qed

lemma layer_groups_nomatch:
  "\<not> (\<exists>a b c. g = Some [Some a, Some b, c]) \<Longrightarrow>
     (case g of Some [Some a, Some b, c] \<Rightarrow> f a b c | _ \<Rightarrow> d) = d"
  by (auto split: option.splits list.splits)

lemma parse_layer_raises:
  "parse_layer line p = Inl err \<longleftrightarrow>
     err = ValueError \<and>
     (\<exists>nm l g3. re_match LAYER_RE line = Some [Some nm, Some l, g3] \<and>
        (4300 < length l \<or> (truthy g3 \<and> 4300 < length (the g3))))"
proof (cases "\<exists>a b c. re_match LAYER_RE line = Some [Some a, Some b, c]")
  case True
  then obtain a b c where "re_match LAYER_RE line = Some [Some a, Some b, c]"
    by blast
  then show ?thesis
    by (auto simp: parse_layer_def py_int_def)
next
  case False
  then have "parse_layer line p = Inr p"
    unfolding parse_layer_def by (rule layer_groups_nomatch)
  with False show ?thesis
    by auto
qed

lemma loop_body_raises:
  "loop_body lines i p = Inl err \<longleftrightarrow>
     strip (lines ! i) \<noteq> [] \<and> \<not> startswith ''//'' (strip (lines ! i)) \<and>
     ((startswith ''LAYER '' (strip (lines ! i)) \<and>
       parse_layer (strip (lines ! i)) p = Inl err) \<or>
      (\<not> startswith ''LAYER '' (strip (lines ! i)) \<and> contains ''{'' (strip (lines ! i)) \<and>
       parse_rule_block
         (strip (hd (split_chr (CHR ''{'') (strip (lines ! i)))))
         (join NL (fst (block_lines lines (i + 1)
            (count_chr (CHR ''{'') (strip (lines ! i))
               - count_chr (CHR ''}'') (strip (lines ! i)))
            [strip (lines ! i)])))
         (if contains ''@'' (strip (lines ! i))
          then Some (strip (hd (split_chr (CHR ''}'')
                 (split_chr (CHR ''@'') (strip (lines ! i)) ! 1))))
          else None)
         (p\<lparr>current_rule_name :=
              Some (strip (hd (split_chr (CHR ''{'') (strip (lines ! i)))))\<rparr>) = Inl err))"
  by (auto simp: loop_body_def Let_def split: sum.splits)

text \<open>
  C8. The driver returns 0 exactly when the input is read, parsed, generated and written
  without an exception, and 1 otherwise: in particular when the input file does not exist
  and when parsing raises. Parsing raises exactly as follows. The classifier raises
  \<open>ValueError\<close>, and nothing else, exactly when the pattern of the keyword that the priority
  selects (WIDTH, EXTERNAL, INTERNAL or ENC) matches and its value token does not convert; a
  layer declaration raises exactly when one of its numbers is too long to convert. One pass
  of the statement loop raises exactly when the statement is a layer declaration or a rule
  block whose handler raises; the loop raises exactly when the pass at its position raises
  or the pass succeeds and the loop from the next position raises; so an exception in a
  statement reached after any number of passes that succeed ends \<open>parse_file\<close>, and the exit
  code is 1. The token \<open>1.2.3\<close> matches the value pattern and does not convert.
\<close>

theorem main_exit_code:
  "(main e a = 0 \<longleftrightarrow>
      (\<exists>content p. read_file e (input_path a) = Inr content \<and> parse_file content = Inr p \<and>
                   write_file e (output_path a) (generate p) = None)) \<and>
   (main e a = 0 \<or> main e a = 1) \<and>
   (read_file e (input_path a) = Inl FileNotFoundError \<longrightarrow> main e a = 1) \<and>
   (\<forall>content err. read_file e (input_path a) = Inr content \<and> parse_file content = Inl err
        \<longrightarrow> main e a = 1) \<and>
   (\<forall>rn block c p err.
      parse_rule_block rn block c p = Inl err \<longleftrightarrow>
        err = ValueError \<and>
        ((contains ''WIDTH'' block \<and>
          (\<exists>l opr tok. re_search WIDTH_RE block = Some [Some l, Some opr, Some tok] \<and>
             py_float tok = Inl ValueError)) \<or>
         (\<not> contains ''WIDTH'' block \<and> contains ''EXTERNAL'' block \<and>
          (\<exists>l opr tok. re_search EXTERNAL_RE block = Some [Some l, Some opr, Some tok] \<and>
             py_float tok = Inl ValueError)) \<or>
         (\<not> contains ''WIDTH'' block \<and> \<not> contains ''EXTERNAL'' block \<and>
          contains ''INTERNAL'' block \<and>
          (\<exists>l opr tok. re_search INTERNAL_RE block = Some [Some l, Some opr, Some tok] \<and>
             py_float tok = Inl ValueError)) \<or>
         (\<not> contains ''WIDTH'' block \<and> \<not> contains ''EXTERNAL'' block \<and>
          \<not> contains ''INTERNAL'' block \<and> contains ''ENC'' block \<and>
          (\<exists>outer inner opr tok.
             re_search ENC_RE block = Some [Some outer, Some inner, Some opr, Some tok] \<and>
             py_float tok = Inl ValueError)))) \<and>
   (\<forall>line p err.
      parse_layer line p = Inl err \<longleftrightarrow>
        err = ValueError \<and>
        (\<exists>nm l g3. re_match LAYER_RE line = Some [Some nm, Some l, g3] \<and>
           (4300 < length l \<or> (truthy g3 \<and> 4300 < length (the g3))))) \<and>
   (\<forall>lines i p err.
      loop_body lines i p = Inl err \<longleftrightarrow>
        strip (lines ! i) \<noteq> [] \<and> \<not> startswith ''//'' (strip (lines ! i)) \<and>
        ((startswith ''LAYER '' (strip (lines ! i)) \<and>
          parse_layer (strip (lines ! i)) p = Inl err) \<or>
         (\<not> startswith ''LAYER '' (strip (lines ! i)) \<and> contains ''{'' (strip (lines ! i)) \<and>
          parse_rule_block
            (strip (hd (split_chr (CHR ''{'') (strip (lines ! i)))))
            (join NL (fst (block_lines lines (i + 1)
               (count_chr (CHR ''{'') (strip (lines ! i))
                  - count_chr (CHR ''}'') (strip (lines ! i)))
               [strip (lines ! i)])))
            (if contains ''@'' (strip (lines ! i))
             then Some (strip (hd (split_chr (CHR ''}'')
                    (split_chr (CHR ''@'') (strip (lines ! i)) ! 1))))
             else None)
            (p\<lparr>current_rule_name :=
                 Some (strip (hd (split_chr (CHR ''{'') (strip (lines ! i)))))\<rparr>)
            = Inl err))) \<and>
   (\<forall>lines i p err.
      parse_loop lines i p = Inl err \<longleftrightarrow>
        i < length lines \<and>
        (loop_body lines i p = Inl err \<or>
         (\<exists>j p1. loop_body lines i p = Inr (j, p1) \<and> parse_loop lines j p1 = Inl err))) \<and>
   (\<forall>content tr err.
      read_file e (input_path a) = Inr content \<and>
      tr \<noteq> [] \<and> hd tr = (0, init_parser) \<and>
      (\<forall>k. Suc k < length tr \<longrightarrow>
         fst (tr ! k) < length (split_chr (CHR 0x0A) (strip_comments content)) \<and>
         loop_body (split_chr (CHR 0x0A) (strip_comments content)) (fst (tr ! k)) (snd (tr ! k))
           = Inr (tr ! Suc k)) \<and>
      fst (last tr) < length (split_chr (CHR 0x0A) (strip_comments content)) \<and>
      loop_body (split_chr (CHR 0x0A) (strip_comments content)) (fst (last tr)) (snd (last tr))
        = Inl err
      \<longrightarrow> parse_file content = Inl err \<and> main e a = 1) \<and>
   py_float ''1.2.3'' = Inl ValueError"
proof -
  have bad: "py_float ''1.2.3'' = Inl ValueError"
    by code_simp
  have zero: "main e a = 0 \<longleftrightarrow>
      (\<exists>content p. read_file e (input_path a) = Inr content \<and> parse_file content = Inr p \<and>
                   write_file e (output_path a) (generate p) = None)"
    by (auto simp: main_def split: sum.splits option.splits)
  have codes: "main e a = 0 \<or> main e a = 1"
    by (simp add: main_def split: sum.splits option.splits)
  have missing: "read_file e (input_path a) = Inl FileNotFoundError \<longrightarrow> main e a = 1"
    by (simp add: main_def)
  have raised: "\<forall>content err. read_file e (input_path a) = Inr content \<and>
      parse_file content = Inl err \<longrightarrow> main e a = 1"
    by (simp add: main_def)
  have later: "\<forall>content tr err.
      read_file e (input_path a) = Inr content \<and>
      tr \<noteq> [] \<and> hd tr = (0, init_parser) \<and>
      (\<forall>k. Suc k < length tr \<longrightarrow>
         fst (tr ! k) < length (split_chr (CHR 0x0A) (strip_comments content)) \<and>
         loop_body (split_chr (CHR 0x0A) (strip_comments content)) (fst (tr ! k)) (snd (tr ! k))
           = Inr (tr ! Suc k)) \<and>
      fst (last tr) < length (split_chr (CHR 0x0A) (strip_comments content)) \<and>
      loop_body (split_chr (CHR 0x0A) (strip_comments content)) (fst (last tr)) (snd (last tr))
        = Inl err
      \<longrightarrow> parse_file content = Inl err \<and> main e a = 1"
  proof (intro allI impI)
    fix content tr err
    let ?lines = "split_chr (CHR 0x0A) (strip_comments content)"
    assume h: "read_file e (input_path a) = Inr content \<and>
      tr \<noteq> [] \<and> hd tr = (0, init_parser) \<and>
      (\<forall>k. Suc k < length tr \<longrightarrow>
         fst (tr ! k) < length ?lines \<and>
         loop_body ?lines (fst (tr ! k)) (snd (tr ! k)) = Inr (tr ! Suc k)) \<and>
      fst (last tr) < length ?lines \<and>
      loop_body ?lines (fst (last tr)) (snd (last tr)) = Inl err"
    then have "parse_loop ?lines (fst (hd tr)) (snd (hd tr)) = Inl err"
      by (intro parse_loop_trace) simp_all
    with h have "parse_file content = Inl err"
      by (simp add: parse_file_def)
    with h show "parse_file content = Inl err \<and> main e a = 1"
      by (simp add: main_def)
  qed
  have block: "\<forall>rn block c p err.
      parse_rule_block rn block c p = Inl err \<longleftrightarrow>
        err = ValueError \<and>
        ((contains ''WIDTH'' block \<and>
          (\<exists>l opr tok. re_search WIDTH_RE block = Some [Some l, Some opr, Some tok] \<and>
             py_float tok = Inl ValueError)) \<or>
         (\<not> contains ''WIDTH'' block \<and> contains ''EXTERNAL'' block \<and>
          (\<exists>l opr tok. re_search EXTERNAL_RE block = Some [Some l, Some opr, Some tok] \<and>
             py_float tok = Inl ValueError)) \<or>
         (\<not> contains ''WIDTH'' block \<and> \<not> contains ''EXTERNAL'' block \<and>
          contains ''INTERNAL'' block \<and>
          (\<exists>l opr tok. re_search INTERNAL_RE block = Some [Some l, Some opr, Some tok] \<and>
             py_float tok = Inl ValueError)) \<or>
         (\<not> contains ''WIDTH'' block \<and> \<not> contains ''EXTERNAL'' block \<and>
          \<not> contains ''INTERNAL'' block \<and> contains ''ENC'' block \<and>
          (\<exists>outer inner opr tok.
             re_search ENC_RE block = Some [Some outer, Some inner, Some opr, Some tok] \<and>
             py_float tok = Inl ValueError)))"
    by (intro allI) (rule parse_rule_block_raises)
  have layer: "\<forall>line p err.
      parse_layer line p = Inl err \<longleftrightarrow>
        err = ValueError \<and>
        (\<exists>nm l g3. re_match LAYER_RE line = Some [Some nm, Some l, g3] \<and>
           (4300 < length l \<or> (truthy g3 \<and> 4300 < length (the g3))))"
    by (intro allI) (rule parse_layer_raises)
  have body: "\<forall>lines i p err.
      loop_body lines i p = Inl err \<longleftrightarrow>
        strip (lines ! i) \<noteq> [] \<and> \<not> startswith ''//'' (strip (lines ! i)) \<and>
        ((startswith ''LAYER '' (strip (lines ! i)) \<and>
          parse_layer (strip (lines ! i)) p = Inl err) \<or>
         (\<not> startswith ''LAYER '' (strip (lines ! i)) \<and> contains ''{'' (strip (lines ! i)) \<and>
          parse_rule_block
            (strip (hd (split_chr (CHR ''{'') (strip (lines ! i)))))
            (join NL (fst (block_lines lines (i + 1)
               (count_chr (CHR ''{'') (strip (lines ! i))
                  - count_chr (CHR ''}'') (strip (lines ! i)))
               [strip (lines ! i)])))
            (if contains ''@'' (strip (lines ! i))
             then Some (strip (hd (split_chr (CHR ''}'')
                    (split_chr (CHR ''@'') (strip (lines ! i)) ! 1))))
             else None)
            (p\<lparr>current_rule_name :=
                 Some (strip (hd (split_chr (CHR ''{'') (strip (lines ! i)))))\<rparr>)
            = Inl err))"
    by (intro allI) (rule loop_body_raises)
  have loop: "\<forall>lines i p err.
      parse_loop lines i p = Inl err \<longleftrightarrow>
        i < length lines \<and>
        (loop_body lines i p = Inl err \<or>
         (\<exists>j p1. loop_body lines i p = Inr (j, p1) \<and> parse_loop lines j p1 = Inl err))"
    by (intro allI) (rule parse_loop_unfold)
  show ?thesis
    by (intro conjI) (fact zero codes missing raised block layer body loop later bad)+
qed

theorem main_exit_code_witness:
  "main \<lparr>read_file = (\<lambda>f. Inr (''LAYER M1 10'' @ NL @ ''A = AND X Y'' @ NL @
                                  ''S1 { EXTERNAL M1 < 1.2.3 }'' @ NL @ ''B = OR A M1'')),
         write_file = (\<lambda>f t. None)\<rparr>
        \<lparr>input_path = ''in.svrf'', output_path = ''out.rs'', verbose = False, stats = False\<rparr>
     = 1 \<and>
   parse_file (''LAYER M1 10'' @ NL @ ''A = AND X Y'' @ NL @
               ''S1 { EXTERNAL M1 < 1.2.3 }'' @ NL @ ''B = OR A M1'') = Inl ValueError \<and>
   main \<lparr>read_file = (\<lambda>f. Inl FileNotFoundError), write_file = (\<lambda>f t. None)\<rparr>
        \<lparr>input_path = ''in.svrf'', output_path = ''out.rs'', verbose = False, stats = False\<rparr>
     = 1 \<and>
   main \<lparr>read_file = (\<lambda>f. Inr ''LAYER M1 10''), write_file = (\<lambda>f t. None)\<rparr>
        \<lparr>input_path = ''in.svrf'', output_path = ''out.rs'', verbose = False, stats = False\<rparr>
     = 0 \<and>
   main \<lparr>read_file = (\<lambda>f. Inr ''LAYER M1 10''), write_file = (\<lambda>f t. Some OSError)\<rparr>
        \<lparr>input_path = ''in.svrf'', output_path = ''out.rs'', verbose = False, stats = False\<rparr>
     = 1 \<and>
   parse_rule_block ''W1'' ''W1 { WIDTH M1 < 1.2.3 }'' None init_parser = Inl ValueError \<and>
   parse_rule_block ''S1'' ''S1 { EXTERNAL M1 < 1.2.3 }'' None init_parser = Inl ValueError \<and>
   parse_rule_block ''S2'' ''S2 { INTERNAL M1 < 1.2.3 }'' None init_parser = Inl ValueError \<and>
   parse_rule_block ''E1'' ''E1 { ENC V1 M1 > 1.2.3 }'' None init_parser = Inl ValueError \<and>
   parse_rule_block ''W3'' ''W3 { WIDTH M1 < 0.5 }'' None init_parser \<noteq> Inl ValueError \<and>
   parse_layer ''LAYER M1 10'' init_parser \<noteq> Inl ValueError \<and>
   loop_body [''S2 { @ spacing'', ''INTERNAL M1 < 1.2.3'', ''}''] 0 init_parser = Inl ValueError \<and>
   parse_loop [''LAYER M1 10'', ''E1 { ENC V1 M1 > 1.2.3 }''] 0 init_parser = Inl ValueError"
proof -
  let ?a = "\<lparr>input_path = ''in.svrf'', output_path = ''out.rs'', verbose = False,
             stats = False\<rparr>"
  let ?content = "''LAYER M1 10'' @ NL @ ''A = AND X Y'' @ NL @
                  ''S1 { EXTERNAL M1 < 1.2.3 }'' @ NL @ ''B = OR A M1''"
  let ?bad = "\<lparr>read_file = (\<lambda>f. Inr ?content), write_file = (\<lambda>f t. None)\<rparr>"
  let ?missing = "\<lparr>read_file = (\<lambda>f. Inl FileNotFoundError), write_file = (\<lambda>f t. None)\<rparr>"
  let ?ok = "\<lparr>read_file = (\<lambda>f. Inr ''LAYER M1 10''), write_file = (\<lambda>f t. None)\<rparr>"
  let ?full = "\<lparr>read_file = (\<lambda>f. Inr ''LAYER M1 10''), write_file = (\<lambda>f t. Some OSError)\<rparr>"
  let ?lines = "[''LAYER M1 10'', ''A = AND X Y'', ''S1 { EXTERNAL M1 < 1.2.3 }'',
                 ''B = OR A M1'']"
  let ?m1 = "(''M1'', \<lparr>name = ''M1'', gds_layer = 10, gds_datatype = 0\<rparr>)"
  let ?p1 = "\<lparr>layers = [?m1], rules = [], current_rule_name = None\<rparr>"
  let ?p2 = "\<lparr>layers = [?m1], rules = [BooleanOp ''A'' ''AND'' ''X'' (Some ''Y'') None],
              current_rule_name = None\<rparr>"
  let ?tr = "[(0, init_parser), (1, ?p1), (2, ?p2)]"
  note rule_block = main_exit_code [of ?ok ?a, THEN conjunct2, THEN conjunct2, THEN conjunct2,
      THEN conjunct2, THEN conjunct1, rule_format]
  note layer = main_exit_code [of ?ok ?a, THEN conjunct2, THEN conjunct2, THEN conjunct2,
      THEN conjunct2, THEN conjunct2, THEN conjunct1, rule_format]
  note body = main_exit_code [of ?ok ?a, THEN conjunct2, THEN conjunct2, THEN conjunct2,
      THEN conjunct2, THEN conjunct2, THEN conjunct2, THEN conjunct1, rule_format]
  note loop = main_exit_code [of ?ok ?a, THEN conjunct2, THEN conjunct2, THEN conjunct2,
      THEN conjunct2, THEN conjunct2, THEN conjunct2, THEN conjunct2, THEN conjunct1,
      rule_format]
  note later = main_exit_code [of ?bad ?a, THEN conjunct2, THEN conjunct2, THEN conjunct2,
      THEN conjunct2, THEN conjunct2, THEN conjunct2, THEN conjunct2, THEN conjunct2,
      THEN conjunct1, rule_format, of ?content ?tr ValueError]
  have lines: "split_chr (CHR 0x0A) (strip_comments ?content) = ?lines"
    by code_simp
  have s0: "loop_body ?lines 0 init_parser = Inr (1, ?p1)"
    by code_simp
  have s1: "loop_body ?lines 1 ?p1 = Inr (2, ?p2)"
    by code_simp
  have s2: "loop_body ?lines 2 ?p2 = Inl ValueError"
    by code_simp
  have chain: "\<forall>k. Suc k < length ?tr \<longrightarrow>
      fst (?tr ! k) < length (split_chr (CHR 0x0A) (strip_comments ?content)) \<and>
      loop_body (split_chr (CHR 0x0A) (strip_comments ?content)) (fst (?tr ! k)) (snd (?tr ! k))
        = Inr (?tr ! Suc k)"
  proof (intro allI impI)
    fix k
    assume "Suc k < length ?tr"
    then have "k = 0 \<or> k = 1"
      by (simp only: list.size) arith
    then show "fst (?tr ! k) < length (split_chr (CHR 0x0A) (strip_comments ?content)) \<and>
      loop_body (split_chr (CHR 0x0A) (strip_comments ?content)) (fst (?tr ! k)) (snd (?tr ! k))
        = Inr (?tr ! Suc k)"
    proof
      assume "k = 0"
      with s0 show ?thesis
        by (simp only: lines) simp
    next
      assume "k = 1"
      with s1 show ?thesis
        by (simp only: lines) simp
    qed
  qed
  have last: "fst (last ?tr) < length (split_chr (CHR 0x0A) (strip_comments ?content)) \<and>
      loop_body (split_chr (CHR 0x0A) (strip_comments ?content)) (fst (last ?tr)) (snd (last ?tr))
        = Inl ValueError"
    using s2 by (simp only: lines) simp
  have "read_file ?bad (input_path ?a) = Inr ?content \<and> ?tr \<noteq> [] \<and> hd ?tr = (0, init_parser)"
    by simp
  with chain last have bad: "parse_file ?content = Inl ValueError \<and> main ?bad ?a = 1"
    by (intro later) (intro conjI; elim conjE; assumption)
  have "read_file ?missing (input_path ?a) = Inl FileNotFoundError"
    by simp
  with main_exit_code [of ?missing ?a] have missing: "main ?missing ?a = 1"
    by (elim conjE) (erule mp)
  have parsed: "parse_file ''LAYER M1 10'' = Inr ?p1"
    by code_simp
  have "\<exists>content p. read_file ?ok (input_path ?a) = Inr content \<and> parse_file content = Inr p \<and>
      write_file ?ok (output_path ?a) (generate p) = None"
    using parsed by simp
  with main_exit_code [of ?ok ?a, THEN conjunct1] have ok: "main ?ok ?a = 0"
    by (rule iffD2)
  have "\<not> (\<exists>content p. read_file ?full (input_path ?a) = Inr content \<and>
      parse_file content = Inr p \<and> write_file ?full (output_path ?a) (generate p) = None)"
    by simp
  with main_exit_code [of ?full ?a, THEN conjunct1]
    main_exit_code [of ?full ?a, THEN conjunct2, THEN conjunct1]
  have full: "main ?full ?a = 1"
    by blast
  have tok: "py_float ''1.2.3'' = Inl ValueError"
    by code_simp
  have "contains ''WIDTH'' ''W1 { WIDTH M1 < 1.2.3 }'' \<and>
      re_search WIDTH_RE ''W1 { WIDTH M1 < 1.2.3 }''
        = Some [Some ''M1'', Some ''<'', Some ''1.2.3'']"
    by code_simp
  with tok have w: "parse_rule_block ''W1'' ''W1 { WIDTH M1 < 1.2.3 }'' None init_parser
      = Inl ValueError"
    by (subst rule_block) simp
  have "\<not> contains ''WIDTH'' ''S1 { EXTERNAL M1 < 1.2.3 }'' \<and>
      contains ''EXTERNAL'' ''S1 { EXTERNAL M1 < 1.2.3 }'' \<and>
      re_search EXTERNAL_RE ''S1 { EXTERNAL M1 < 1.2.3 }''
        = Some [Some ''M1'', Some ''<'', Some ''1.2.3'']"
    by code_simp
  with tok have x: "parse_rule_block ''S1'' ''S1 { EXTERNAL M1 < 1.2.3 }'' None init_parser
      = Inl ValueError"
    by (subst rule_block) simp
  have "\<not> contains ''WIDTH'' ''S2 { INTERNAL M1 < 1.2.3 }'' \<and>
      \<not> contains ''EXTERNAL'' ''S2 { INTERNAL M1 < 1.2.3 }'' \<and>
      contains ''INTERNAL'' ''S2 { INTERNAL M1 < 1.2.3 }'' \<and>
      re_search INTERNAL_RE ''S2 { INTERNAL M1 < 1.2.3 }''
        = Some [Some ''M1'', Some ''<'', Some ''1.2.3'']"
    by code_simp
  with tok have i: "parse_rule_block ''S2'' ''S2 { INTERNAL M1 < 1.2.3 }'' None init_parser
      = Inl ValueError"
    by (subst rule_block) simp
  have "\<not> contains ''WIDTH'' ''E1 { ENC V1 M1 > 1.2.3 }'' \<and>
      \<not> contains ''EXTERNAL'' ''E1 { ENC V1 M1 > 1.2.3 }'' \<and>
      \<not> contains ''INTERNAL'' ''E1 { ENC V1 M1 > 1.2.3 }'' \<and>
      contains ''ENC'' ''E1 { ENC V1 M1 > 1.2.3 }'' \<and>
      re_search ENC_RE ''E1 { ENC V1 M1 > 1.2.3 }''
        = Some [Some ''V1'', Some ''M1'', Some ''>'', Some ''1.2.3'']"
    by code_simp
  with tok have n: "parse_rule_block ''E1'' ''E1 { ENC V1 M1 > 1.2.3 }'' None init_parser
      = Inl ValueError"
    by (subst rule_block) simp
  have "contains ''WIDTH'' ''W3 { WIDTH M1 < 0.5 }'' \<and>
      re_search WIDTH_RE ''W3 { WIDTH M1 < 0.5 }'' = Some [Some ''M1'', Some ''<'', Some ''0.5''] \<and>
      py_float ''0.5'' = Inr (Fin 1 2)"
    by code_simp
  then have good: "parse_rule_block ''W3'' ''W3 { WIDTH M1 < 0.5 }'' None init_parser
      \<noteq> Inl ValueError"
    by (subst rule_block) simp
  have "re_match LAYER_RE ''LAYER M1 10'' = Some [Some ''M1'', Some ''10'', None]"
    by code_simp
  then have lay: "parse_layer ''LAYER M1 10'' init_parser \<noteq> Inl ValueError"
    by (subst layer) (simp add: truthy_def)
  let ?blk = "[''S2 { @ spacing'', ''INTERNAL M1 < 1.2.3'', ''}'']"
  have "strip (?blk ! 0) \<noteq> [] \<and> \<not> startswith ''//'' (strip (?blk ! 0)) \<and>
      \<not> startswith ''LAYER '' (strip (?blk ! 0)) \<and> contains ''{'' (strip (?blk ! 0)) \<and>
      parse_rule_block
        (strip (hd (split_chr (CHR ''{'') (strip (?blk ! 0)))))
        (join NL (fst (block_lines ?blk (0 + 1)
           (count_chr (CHR ''{'') (strip (?blk ! 0)) - count_chr (CHR ''}'') (strip (?blk ! 0)))
           [strip (?blk ! 0)])))
        (if contains ''@'' (strip (?blk ! 0))
         then Some (strip (hd (split_chr (CHR ''}'')
                (split_chr (CHR ''@'') (strip (?blk ! 0)) ! 1))))
         else None)
        (init_parser\<lparr>current_rule_name :=
             Some (strip (hd (split_chr (CHR ''{'') (strip (?blk ! 0)))))\<rparr>)
        = Inl ValueError"
    by code_simp
  then have blk: "loop_body ?blk 0 init_parser = Inl ValueError"
    by (subst body) (intro conjI disjI2; elim conjE; assumption)
  let ?two = "[''LAYER M1 10'', ''E1 { ENC V1 M1 > 1.2.3 }'']"
  have "(0::nat) < length ?two \<and> loop_body ?two 0 init_parser = Inr (1, ?p1) \<and>
      parse_loop ?two 1 ?p1 = Inl ValueError"
    by code_simp
  then have two: "parse_loop ?two 0 init_parser = Inl ValueError"
    by (subst loop) blast
  from bad missing ok full w x i n good lay blk two show ?thesis
    by blast
qed

section \<open>Boolean assignments\<close>

lemma upper_NOT: "op_map_get (upper ''NOT'') = ''not''"
  by code_simp

text \<open>
  C4, as amended. A NOT assignment is parsed with one or two operands: the optional second
  operand is captured for NOT as it is for AND and OR. Generation renders the one-operand
  form \<open>result = not a;\<close> when the node has no second operand, and the two-operand form
  \<open>result = a not b;\<close> when it has one.
\<close>

theorem not_rendering:
  assumes "re_match ASSIGN_RE line = Some [Some res, Some ''NOT'', Some a, l2]"
  shows "\<exists>c. parse_assignment line p = append_rule (BooleanOp res ''NOT'' a l2 c) p \<and>
     to_pxl (BooleanOp res ''NOT'' a l2 c) =
       join NL (comment_lines c @
         [case l2 of None \<Rightarrow> res @ '' = not '' @ a @ '';''
                   | Some b \<Rightarrow> res @ '' = '' @ a @ '' not '' @ b @ '';''])"
proof -
  let ?c = "if contains ''@'' line then Some (strip (split_chr (CHR ''@'') line ! 1)) else None"
  have parsed: "parse_assignment line p = append_rule (BooleanOp res ''NOT'' a l2 ?c) p"
    using assms by (simp add: parse_assignment_def)
  from assign_groups [OF assms] have "\<forall>b. l2 = Some b \<longrightarrow> b \<noteq> []"
    by simp
  then have "to_pxl (BooleanOp res ''NOT'' a l2 ?c) =
       join NL (comment_lines ?c @
         [case l2 of None \<Rightarrow> res @ '' = not '' @ a @ '';''
                   | Some b \<Rightarrow> res @ '' = '' @ a @ '' not '' @ b @ '';''])"
    by (cases l2) (simp_all add: upper_NOT truthy_def)
  with parsed show ?thesis
    by blast
qed

theorem not_rendering_witness:
  "re_match ASSIGN_RE ''X = NOT A B'' = Some [Some ''X'', Some ''NOT'', Some ''A'', Some ''B''] \<and>
   re_match ASSIGN_RE ''Y = NOT A'' = Some [Some ''Y'', Some ''NOT'', Some ''A'', None] \<and>
   (\<exists>c. parse_assignment ''X = NOT A B'' init_parser
          = append_rule (BooleanOp ''X'' ''NOT'' ''A'' (Some ''B'') c) init_parser \<and>
        to_pxl (BooleanOp ''X'' ''NOT'' ''A'' (Some ''B'') c)
          = join NL (comment_lines c @ [''X'' @ '' = '' @ ''A'' @ '' not '' @ ''B'' @ '';''])) \<and>
   (\<exists>c. parse_assignment ''Y = NOT A'' init_parser
          = append_rule (BooleanOp ''Y'' ''NOT'' ''A'' None c) init_parser \<and>
        to_pxl (BooleanOp ''Y'' ''NOT'' ''A'' None c)
          = join NL (comment_lines c @ [''Y'' @ '' = not '' @ ''A'' @ '';'']))"
proof -
  have x: "re_match ASSIGN_RE ''X = NOT A B''
             = Some [Some ''X'', Some ''NOT'', Some ''A'', Some ''B'']"
    by code_simp
  have y: "re_match ASSIGN_RE ''Y = NOT A'' = Some [Some ''Y'', Some ''NOT'', Some ''A'', None]"
    by code_simp
  from not_rendering [OF x, of init_parser] not_rendering [OF y, of init_parser] x y
  show ?thesis
    by simp
qed

text \<open>
  C4 as stated fails: \<open>X = NOT A B\<close> is parsed with the two operands A and B and rendered in
  the two-operand form \<open>X = A not B;\<close>.
\<close>

theorem not_two_operands_counterexample:
  "parse_file ''X = NOT A B''
     = Inr \<lparr>layers = [], rules = [BooleanOp ''X'' ''NOT'' ''A'' (Some ''B'') None],
            current_rule_name = None\<rparr> \<and>
   to_pxl (BooleanOp ''X'' ''NOT'' ''A'' (Some ''B'') None) = ''X = A not B;''"
  by code_simp

text \<open>
  C5, as amended. The operation keyword of an assignment is recognized only as written in
  upper case: when the assignment pattern does not match, no node is produced; when it
  matches, the node stores the second group as matched, which is one of AND, OR, NOT.
\<close>

theorem operation_upper_case_only:
  "(re_match ASSIGN_RE line = None \<longrightarrow> parse_assignment line p = p) \<and>
   (\<forall>g. re_match ASSIGN_RE line = Some g \<longrightarrow>
      (\<exists>res opn l1 l2 c.
         g = [Some res, Some opn, Some l1, l2] \<and>
         parse_assignment line p = append_rule (BooleanOp res opn l1 l2 c) p \<and>
         (opn = ''AND'' \<or> opn = ''OR'' \<or> opn = ''NOT'')))"
proof (intro conjI impI allI)
  assume "re_match ASSIGN_RE line = None"
  then show "parse_assignment line p = p"
    by (simp add: parse_assignment_def)
next
  fix g
  assume m: "re_match ASSIGN_RE line = Some g"
  from assign_groups [OF m] obtain res opn l1 l2 where
      g: "g = [Some res, Some opn, Some l1, l2]"
      and opn: "opn = ''AND'' \<or> opn = ''OR'' \<or> opn = ''NOT''"
    by blast
  let ?c = "if contains ''@'' line then Some (strip (split_chr (CHR ''@'') line ! 1)) else None"
  from m g have "parse_assignment line p = append_rule (BooleanOp res opn l1 l2 ?c) p"
    by (simp add: parse_assignment_def)
  with g opn show "\<exists>res opn l1 l2 c.
         g = [Some res, Some opn, Some l1, l2] \<and>
         parse_assignment line p = append_rule (BooleanOp res opn l1 l2 c) p \<and>
         (opn = ''AND'' \<or> opn = ''OR'' \<or> opn = ''NOT'')"
    by blast
qed

theorem operation_upper_case_only_witness:
  "re_match ASSIGN_RE ''R = and A B'' = None \<and>
   parse_assignment ''R = and A B'' init_parser = init_parser \<and>
   re_match ASSIGN_RE ''R = AND A B'' = Some [Some ''R'', Some ''AND'', Some ''A'', Some ''B''] \<and>
   (\<exists>res opn l1 l2 c.
      [Some ''R'', Some ''AND'', Some ''A'', Some ''B''] = [Some res, Some opn, Some l1, l2] \<and>
      parse_assignment ''R = AND A B'' init_parser
        = append_rule (BooleanOp res opn l1 l2 c) init_parser \<and>
      (opn = ''AND'' \<or> opn = ''OR'' \<or> opn = ''NOT''))"
proof -
  have lower: "re_match ASSIGN_RE ''R = and A B'' = None"
    by code_simp
  have upper: "re_match ASSIGN_RE ''R = AND A B''
      = Some [Some ''R'', Some ''AND'', Some ''A'', Some ''B'']"
    by code_simp
  from operation_upper_case_only [of "''R = and A B''" init_parser] lower
  have "parse_assignment ''R = and A B'' init_parser = init_parser"
    by blast
  moreover from operation_upper_case_only [of "''R = AND A B''" init_parser] upper
  have "\<exists>res opn l1 l2 c.
      [Some ''R'', Some ''AND'', Some ''A'', Some ''B''] = [Some res, Some opn, Some l1, l2] \<and>
      parse_assignment ''R = AND A B'' init_parser
        = append_rule (BooleanOp res opn l1 l2 c) init_parser \<and>
      (opn = ''AND'' \<or> opn = ''OR'' \<or> opn = ''NOT'')"
    by blast
  ultimately show ?thesis
    using lower upper by blast
qed

text \<open>
  C5 as stated fails: \<open>R = and A B\<close> and \<open>R = And A B\<close> produce no node, where
  \<open>R = AND A B\<close> produces one.
\<close>

theorem lower_case_operation_counterexample:
  "parse_file ''R = and A B'' = Inr \<lparr>layers = [], rules = [], current_rule_name = None\<rparr> \<and>
   parse_file ''R = And A B'' = Inr \<lparr>layers = [], rules = [], current_rule_name = None\<rparr> \<and>
   parse_file ''R = AND A B''
     = Inr \<lparr>layers = [], rules = [BooleanOp ''R'' ''AND'' ''A'' (Some ''B'') None],
            current_rule_name = None\<rparr>"
  by code_simp

section \<open>The layer section\<close>

lemma join_lines: "join NL (x # ys @ [[]]) = x @ NL @ concat (map (\<lambda>l. l @ NL) ys)"
  by (induction ys arbitrary: x) auto

lemma generate_layers_text:
  "generate_layers ls =
     BAR @ NL @ ''// LAYER DEFINITIONS'' @ NL @ BAR @ NL @ NL @
     concat (map (\<lambda>l. LayerDef_to_pxl l @ NL) (sort_key gds_layer (map snd ls)))"
proof -
  let ?out = "sort_key gds_layer (map snd ls)"
  have "generate_layers ls =
      BAR @ NL @ ''// LAYER DEFINITIONS'' @ NL @ join NL ((BAR @ NL) # map LayerDef_to_pxl ?out @ [[]])"
    by (simp add: generate_layers_def)
  also have "join NL ((BAR @ NL) # map LayerDef_to_pxl ?out @ [[]]) =
      (BAR @ NL) @ NL @ concat (map (\<lambda>l. l @ NL) (map LayerDef_to_pxl ?out))"
    by (rule join_lines)
  finally show ?thesis
    by (simp add: comp_def)
qed

lemma distinct_map_insort:
  "distinct (map f (insort_key g x xs)) \<longleftrightarrow> f x \<notin> f ` set xs \<and> distinct (map f xs)"
  by (induction xs) (auto simp: set_insort_key)

lemma distinct_map_sort: "distinct (map f (sort_key g xs)) \<longleftrightarrow> distinct (map f xs)"
  by (induction xs) (simp_all add: distinct_map_insort)

lemma layer_table_names: "layer_table ls \<Longrightarrow> map name (map snd ls) = map fst ls"
  by (induction ls) (auto simp: layer_table_def)

text \<open>
  C2, as amended. For every layer mapping (distinct names, each layer stored under its name),
  the generated layer section is its banner followed by exactly one declaration line per
  layer name, of the form \<open>name = layer(gds_layer, gds_datatype);\<close>; the lines are sorted
  ascending by \<open>gds_layer\<close>, and layers with equal \<open>gds_layer\<close> keep the order in which
  their names were first declared (the order of the dictionary).
\<close>

theorem layer_section_order:
  assumes "layer_table ls"
  shows "generate_layers ls =
           BAR @ NL @ ''// LAYER DEFINITIONS'' @ NL @ BAR @ NL @ NL @
           concat (map (\<lambda>l. LayerDef_to_pxl l @ NL) (sort_key gds_layer (map snd ls))) \<and>
         distinct (map name (sort_key gds_layer (map snd ls))) \<and>
         set (map name (sort_key gds_layer (map snd ls))) = set (map fst ls) \<and>
         length (sort_key gds_layer (map snd ls)) = length ls \<and>
         sorted (map gds_layer (sort_key gds_layer (map snd ls))) \<and>
         (\<forall>k. filter (\<lambda>l. gds_layer l = k) (sort_key gds_layer (map snd ls))
               = filter (\<lambda>l. gds_layer l = k) (map snd ls))"
proof -
  let ?out = "sort_key gds_layer (map snd ls)"
  from assms have names: "map name (map snd ls) = map fst ls"
    by (rule layer_table_names)
  from assms have "distinct (map fst ls)"
    by (simp add: layer_table_def)
  with names have "distinct (map name (map snd ls))"
    by (simp only:)
  then have d: "distinct (map name ?out)"
    by (simp only: distinct_map_sort)
  have "set (map name ?out) = set (map name (map snd ls))"
    by (simp only: set_map set_sort)
  with names have s: "set (map name ?out) = set (map fst ls)"
    by (simp only:)
  have l: "length ?out = length ls"
    by simp
  have o: "sorted (map gds_layer ?out)"
    by (rule sorted_sort_key)
  have st: "\<forall>k. filter (\<lambda>l. gds_layer l = k) ?out = filter (\<lambda>l. gds_layer l = k) (map snd ls)"
    by (simp add: sort_key_stable)
  from generate_layers_text [of ls] d s l o st show ?thesis
    by blast
qed

theorem layer_section_order_witness:
  "layer_table [(''A'', \<lparr>name = ''A'', gds_layer = 20, gds_datatype = 0\<rparr>),
                (''B'', \<lparr>name = ''B'', gds_layer = 10, gds_datatype = 0\<rparr>),
                (''C'', \<lparr>name = ''C'', gds_layer = 10, gds_datatype = 0\<rparr>)] \<and>
   sort_key gds_layer (map snd
               [(''A'', \<lparr>name = ''A'', gds_layer = 20, gds_datatype = 0\<rparr>),
                (''B'', \<lparr>name = ''B'', gds_layer = 10, gds_datatype = 0\<rparr>),
                (''C'', \<lparr>name = ''C'', gds_layer = 10, gds_datatype = 0\<rparr>)])
     = [\<lparr>name = ''B'', gds_layer = 10, gds_datatype = 0\<rparr>,
        \<lparr>name = ''C'', gds_layer = 10, gds_datatype = 0\<rparr>,
        \<lparr>name = ''A'', gds_layer = 20, gds_datatype = 0\<rparr>] \<and>
   generate_layers
               [(''A'', \<lparr>name = ''A'', gds_layer = 20, gds_datatype = 0\<rparr>),
                (''B'', \<lparr>name = ''B'', gds_layer = 10, gds_datatype = 0\<rparr>),
                (''C'', \<lparr>name = ''C'', gds_layer = 10, gds_datatype = 0\<rparr>)]
     = BAR @ NL @ ''// LAYER DEFINITIONS'' @ NL @ BAR @ NL @ NL @
       ''B = layer(10, 0);'' @ NL @ ''C = layer(10, 0);'' @ NL @ ''A = layer(20, 0);'' @ NL"
proof -
  let ?ls = "[(''A'', \<lparr>name = ''A'', gds_layer = 20, gds_datatype = 0\<rparr>),
              (''B'', \<lparr>name = ''B'', gds_layer = 10, gds_datatype = 0\<rparr>),
              (''C'', \<lparr>name = ''C'', gds_layer = 10, gds_datatype = 0\<rparr>)]"
  have t: "layer_table ?ls"
    by (simp add: layer_table_def)
  have o: "sort_key gds_layer (map snd ?ls)
     = [\<lparr>name = ''B'', gds_layer = 10, gds_datatype = 0\<rparr>,
        \<lparr>name = ''C'', gds_layer = 10, gds_datatype = 0\<rparr>,
        \<lparr>name = ''A'', gds_layer = 20, gds_datatype = 0\<rparr>]"
    by simp
  have lines: "concat (map (\<lambda>l. LayerDef_to_pxl l @ NL)
       [\<lparr>name = ''B'', gds_layer = 10, gds_datatype = 0\<rparr>,
        \<lparr>name = ''C'', gds_layer = 10, gds_datatype = 0\<rparr>,
        \<lparr>name = ''A'', gds_layer = 20, gds_datatype = 0\<rparr>])
     = ''B = layer(10, 0);'' @ NL @ ''C = layer(10, 0);'' @ NL @ ''A = layer(20, 0);'' @ NL"
    by code_simp
  from layer_section_order [OF t] have "generate_layers ?ls =
      BAR @ NL @ ''// LAYER DEFINITIONS'' @ NL @ BAR @ NL @ NL @
      concat (map (\<lambda>l. LayerDef_to_pxl l @ NL) (sort_key gds_layer (map snd ?ls)))"
    by blast
  with o lines have "generate_layers ?ls =
      BAR @ NL @ ''// LAYER DEFINITIONS'' @ NL @ BAR @ NL @ NL @
      ''B = layer(10, 0);'' @ NL @ ''C = layer(10, 0);'' @ NL @ ''A = layer(20, 0);'' @ NL"
    by (simp only:)
  with t o show ?thesis
    by blast
qed

lemma fst_dict_set:
  "map fst (dict_set k v d) = (if k \<in> set (map fst d) then map fst d else map fst d @ [k])"
  by (induction d) (fastforce simp: image_iff)+

lemma set_dict_set: "set (dict_set k v d) \<subseteq> insert (k, v) (set d)"
  by (induction d) (auto split: if_splits)

lemma dict_set_table: "layer_table d \<Longrightarrow> name v = k \<Longrightarrow> layer_table (dict_set k v d)"
  using set_dict_set [of k v d]
  by (auto simp: layer_table_def fst_dict_set)

text \<open>
  C2 as stated fails on ties: \<open>LAYER B 10\<close> followed by \<open>LAYER A 10\<close> is emitted with B
  before A, although A is the lexicographically smaller name.
\<close>

theorem layer_tie_counterexample:
  "parse_file (''LAYER B 10'' @ NL @ ''LAYER A 10'')
     = Inr \<lparr>layers = [(''B'', \<lparr>name = ''B'', gds_layer = 10, gds_datatype = 0\<rparr>),
                      (''A'', \<lparr>name = ''A'', gds_layer = 10, gds_datatype = 0\<rparr>)],
            rules = [], current_rule_name = None\<rparr> \<and>
   generate_layers [(''B'', \<lparr>name = ''B'', gds_layer = 10, gds_datatype = 0\<rparr>),
                    (''A'', \<lparr>name = ''A'', gds_layer = 10, gds_datatype = 0\<rparr>)]
     = BAR @ NL @ ''// LAYER DEFINITIONS'' @ NL @ BAR @ NL @ NL @
       ''B = layer(10, 0);'' @ NL @ ''A = layer(10, 0);'' @ NL \<and>
   ''A'' < ''B''"
  by code_simp

section \<open>Order of the rules\<close>

lemma join_rules:
  "join NL (x # concat (map (\<lambda>r. [f r, []]) rs)) = x @ concat (map (\<lambda>r. NL @ f r @ NL) rs)"
  by (induction rs arbitrary: x) simp_all

lemma generate_rules_text:
  "generate_rules rs =
     BAR @ NL @ ''// DRC RULES'' @ NL @ BAR @ NL @ concat (map (\<lambda>r. NL @ to_pxl r @ NL) rs)"
proof -
  have "generate_rules rs =
      BAR @ NL @ ''// DRC RULES'' @ NL @ join NL ((BAR @ NL) # concat (map (\<lambda>r. [to_pxl r, []]) rs))"
    by (simp add: generate_rules_def)
  then show ?thesis
    by (simp only: join_rules) simp
qed

lemma check3_uniform:
  fixes g :: "groups option" and mk :: "string \<Rightarrow> string \<Rightarrow> pyfloat \<Rightarrow> node"
  shows "\<exists>r. (\<forall>p. (case g of
       Some [Some l, Some opr, Some v] \<Rightarrow>
         (case py_float v of Inl e \<Rightarrow> Inl e | Inr x \<Rightarrow> Inr (append_rule (mk l opr x) p))
     | _ \<Rightarrow> Inr p)
     = (case r of Inl e \<Rightarrow> Inl e | Inr ns \<Rightarrow> Inr (p\<lparr>rules := rules p @ ns\<rparr>))) \<and>
     (\<forall>ns. r = Inr ns \<longrightarrow> length ns \<le> 1)"
proof (cases "\<exists>a b c. g = Some [Some a, Some b, Some c]")
  case True
  then obtain a b c where g: "g = Some [Some a, Some b, Some c]"
    by blast
  show ?thesis
  proof (cases "py_float c")
    case (Inl e)
    with g show ?thesis
      by (intro exI [of _ "Inl e"]) simp
  next
    case (Inr x)
    with g show ?thesis
      by (intro exI [of _ "Inr [mk a b x]"]) (simp add: append_rule_def)
  qed
next
  case False
  then show ?thesis
    by (intro exI [of _ "Inr []"]) (simp add: groups3_nomatch)
qed

lemma check4_uniform:
  fixes g :: "groups option" and mk :: "string \<Rightarrow> string \<Rightarrow> string \<Rightarrow> pyfloat \<Rightarrow> node"
  shows "\<exists>r. (\<forall>p. (case g of
       Some [Some a, Some b, Some opr, Some v] \<Rightarrow>
         (case py_float v of Inl e \<Rightarrow> Inl e | Inr x \<Rightarrow> Inr (append_rule (mk a b opr x) p))
     | _ \<Rightarrow> Inr p)
     = (case r of Inl e \<Rightarrow> Inl e | Inr ns \<Rightarrow> Inr (p\<lparr>rules := rules p @ ns\<rparr>))) \<and>
     (\<forall>ns. r = Inr ns \<longrightarrow> length ns \<le> 1)"
proof (cases "\<exists>a b c d. g = Some [Some a, Some b, Some c, Some d]")
  case True
  then obtain a b c d where g: "g = Some [Some a, Some b, Some c, Some d]"
    by blast
  show ?thesis
  proof (cases "py_float d")
    case (Inl e)
    with g show ?thesis
      by (intro exI [of _ "Inl e"]) simp
  next
    case (Inr x)
    with g show ?thesis
      by (intro exI [of _ "Inr [mk a b c x]"]) (simp add: append_rule_def)
  qed
next
  case False
  then show ?thesis
    by (intro exI [of _ "Inr []"]) (simp add: groups4_nomatch)
qed

lemma parse_rule_block_uniform:
  "\<exists>r. (\<forall>p. parse_rule_block rn block c p
     = (case r of Inl e \<Rightarrow> Inl e | Inr ns \<Rightarrow> Inr (p\<lparr>rules := rules p @ ns\<rparr>))) \<and>
     (\<forall>ns. r = Inr ns \<longrightarrow> length ns \<le> 1)"
proof -
  consider (w) "contains ''WIDTH'' block"
    | (e) "\<not> contains ''WIDTH'' block" "contains ''EXTERNAL'' block"
    | (i) "\<not> contains ''WIDTH'' block" "\<not> contains ''EXTERNAL'' block"
          "contains ''INTERNAL'' block"
    | (n) "\<not> contains ''WIDTH'' block" "\<not> contains ''EXTERNAL'' block"
          "\<not> contains ''INTERNAL'' block" "contains ''ENC'' block"
    | (none) "\<not> contains ''WIDTH'' block" "\<not> contains ''EXTERNAL'' block"
          "\<not> contains ''INTERNAL'' block" "\<not> contains ''ENC'' block"
    by blast
  then show ?thesis
  proof cases
    case w
    with check3_uniform [where g = "re_search WIDTH_RE block"
                           and mk = "\<lambda>l opr v. WidthCheck rn l opr v c"]
    show ?thesis
      by (simp add: parse_rule_block_def)
  next
    case e
    with check3_uniform [where g = "re_search EXTERNAL_RE block"
                           and mk = "\<lambda>l opr v. SpacingCheck rn l opr v c"]
    show ?thesis
      by (simp add: parse_rule_block_def)
  next
    case i
    with check3_uniform [where g = "re_search INTERNAL_RE block"
                           and mk = "\<lambda>l opr v. SpacingCheck rn l opr v c"]
    show ?thesis
      by (simp add: parse_rule_block_def)
  next
    case n
    with check4_uniform [where g = "re_search ENC_RE block"
                           and mk = "\<lambda>a b opr v. EnclosureCheck rn a b opr v c"]
    show ?thesis
      by (simp add: parse_rule_block_def)
  next
    case none
    then show ?thesis
      by (intro exI [of _ "Inr []"]) (simp add: parse_rule_block_def)
  qed
qed

lemma parse_layer_uniform:
  "(\<exists>e. \<forall>p. parse_layer line p = Inl e) \<or>
   (\<forall>p. \<exists>p1. parse_layer line p = Inr p1 \<and> rules p1 = rules p \<and>
        (layer_table (layers p) \<longrightarrow> layer_table (layers p1)))"
proof (cases "\<exists>a b c. re_match LAYER_RE line = Some [Some a, Some b, c]")
  case False
  then have "parse_layer line p = Inr p" for p
    unfolding parse_layer_def by (rule layer_groups_nomatch)
  then show ?thesis
    by simp
next
  case True
  then obtain nm l g3 where g: "re_match LAYER_RE line = Some [Some nm, Some l, g3]"
    by blast
  show ?thesis
  proof (cases "py_int l")
    case (Inl e)
    with g show ?thesis
      by (simp add: parse_layer_def)
  next
    case gl: (Inr gl)
    show ?thesis
    proof (cases "if truthy g3 then py_int (the g3) else Inr 0")
      case (Inl e)
      with g gl show ?thesis
        by (simp add: parse_layer_def)
    next
      case (Inr gd)
      with g gl show ?thesis
        by (simp add: parse_layer_def dict_set_table)
    qed
  qed
qed

lemma parse_layer_rules: "parse_layer line p = Inr p1 \<Longrightarrow> rules p1 = rules p"
  using parse_layer_uniform [of line] by (metis Inl_Inr_False sum.inject(2))

lemma parse_assignment_uniform:
  "\<exists>ns. (\<forall>p. parse_assignment line p = p\<lparr>rules := rules p @ ns\<rparr>) \<and> length ns \<le> 1"
proof (cases "re_match ASSIGN_RE line")
  case None
  then show ?thesis
    by (intro exI [of _ "[]"]) (simp add: parse_assignment_def)
next
  case (Some g)
  from assign_groups [OF Some] obtain res opn l1 l2 where "g = [Some res, Some opn, Some l1, l2]"
    by blast
  with Some show ?thesis
    by (intro exI [of _ "[BooleanOp res opn l1 l2
          (if contains ''@'' line then Some (strip (split_chr (CHR ''@'') line ! 1)) else None)]"])
       (simp add: parse_assignment_def append_rule_def)
qed

lemma loop_body_uniform:
  "\<exists>r j. (\<forall>p. (case r of
       Inl e \<Rightarrow> loop_body lines i p = Inl e
     | Inr ns \<Rightarrow> (\<exists>p1. loop_body lines i p = Inr (j, p1) \<and> rules p1 = rules p @ ns \<and>
                      (layer_table (layers p) \<longrightarrow> layer_table (layers p1))))) \<and>
     (\<forall>ns. r = Inr ns \<longrightarrow> length ns \<le> 1)"
proof -
  let ?line = "strip (lines ! i)"
  consider (skip) "?line = [] \<or> startswith ''//'' ?line"
    | (layer) "\<not> (?line = [] \<or> startswith ''//'' ?line)" "startswith ''LAYER '' ?line"
    | (block) "\<not> (?line = [] \<or> startswith ''//'' ?line)" "\<not> startswith ''LAYER '' ?line"
        "contains ''{'' ?line"
    | (assign) "\<not> (?line = [] \<or> startswith ''//'' ?line)" "\<not> startswith ''LAYER '' ?line"
        "\<not> contains ''{'' ?line" "contains ''='' ?line \<and> \<not> startswith ''LAYER'' ?line"
    | (other) "\<not> (?line = [] \<or> startswith ''//'' ?line)" "\<not> startswith ''LAYER '' ?line"
        "\<not> contains ''{'' ?line" "\<not> (contains ''='' ?line \<and> \<not> startswith ''LAYER'' ?line)"
    by blast
  then show ?thesis
  proof cases
    case skip
    then show ?thesis
      by (intro exI [of _ "Inr []"] exI [of _ "i + 1"]) (simp add: loop_body_def Let_def)
  next
    case layer
    then have body: "\<And>p. loop_body lines i p =
        (case parse_layer ?line p of Inl e \<Rightarrow> Inl e | Inr p' \<Rightarrow> Inr (i + 1, p'))"
      by (simp add: loop_body_def Let_def)
    from parse_layer_uniform [of ?line] show ?thesis
    proof
      assume "\<exists>e. \<forall>p. parse_layer ?line p = Inl e"
      then obtain e where "\<And>p. parse_layer ?line p = Inl e"
        by blast
      with body show ?thesis
        by (intro exI [of _ "Inl e"] exI [of _ "i + 1"]) simp
    next
      assume ok: "\<forall>p. \<exists>p1. parse_layer ?line p = Inr p1 \<and> rules p1 = rules p \<and>
          (layer_table (layers p) \<longrightarrow> layer_table (layers p1))"
      have "\<exists>p1. loop_body lines i p = Inr (i + 1, p1) \<and> rules p1 = rules p @ [] \<and>
          (layer_table (layers p) \<longrightarrow> layer_table (layers p1))" for p
      proof -
        from ok obtain p1 where "parse_layer ?line p = Inr p1" "rules p1 = rules p"
            "layer_table (layers p) \<longrightarrow> layer_table (layers p1)"
          by blast
        with body [of p] show ?thesis
          by simp
      qed
      then show ?thesis
        by (intro exI [of _ "Inr []"] exI [of _ "i + 1"]) simp
    qed
  next
    case block
    let ?rn = "strip (hd (split_chr (CHR ''{'') ?line))"
    let ?c = "if contains ''@'' ?line
              then Some (strip (hd (split_chr (CHR ''}'') (split_chr (CHR ''@'') ?line ! 1))))
              else None"
    let ?blk = "block_lines lines (Suc i)
                  (count_chr (CHR ''{'') ?line - count_chr (CHR ''}'') ?line) [?line]"
    from parse_rule_block_uniform [of ?rn "join NL (fst ?blk)" ?c]
    obtain r where r: "\<And>p. parse_rule_block ?rn (join NL (fst ?blk)) ?c p
        = (case r of Inl e \<Rightarrow> Inl e | Inr ns \<Rightarrow> Inr (p\<lparr>rules := rules p @ ns\<rparr>))"
      and len: "\<forall>ns. r = Inr ns \<longrightarrow> length ns \<le> 1"
      by blast
    have body: "\<And>p. loop_body lines i p =
        (case parse_rule_block ?rn (join NL (fst ?blk)) ?c (p\<lparr>current_rule_name := Some ?rn\<rparr>) of
           Inl e \<Rightarrow> Inl e | Inr p' \<Rightarrow> Inr (snd ?blk, p'))"
      using block by (simp add: loop_body_def Let_def)
    show ?thesis
    proof (cases r)
      case (Inl e)
      with r body show ?thesis
        by (intro exI [of _ "Inl e"] exI [of _ "snd ?blk"]) simp
    next
      case (Inr ns)
      with r body len show ?thesis
        by (intro exI [of _ "Inr ns"] exI [of _ "snd ?blk"]) simp
    qed
  next
    case assign
    from parse_assignment_uniform [of ?line]
    obtain ns where "\<And>p. parse_assignment ?line p = p\<lparr>rules := rules p @ ns\<rparr>"
        "length ns \<le> 1"
      by blast
    with assign show ?thesis
      by (intro exI [of _ "Inr ns"] exI [of _ "i + 1"]) (simp add: loop_body_def Let_def)
  next
    case other
    then show ?thesis
      by (intro exI [of _ "Inr []"] exI [of _ "i + 1"]) (auto simp add: loop_body_def Let_def)
  qed
qed

lemma parse_loop_uniform:
  "\<exists>r. \<forall>p. (case r of
       Inl e \<Rightarrow> parse_loop lines i p = Inl e
     | Inr ns \<Rightarrow> (\<exists>p'. parse_loop lines i p = Inr p' \<and> rules p' = rules p @ ns \<and>
                      (layer_table (layers p) \<longrightarrow> layer_table (layers p'))))"
proof (induction "length lines - i" arbitrary: i rule: less_induct)
  case less
  show ?case
  proof (cases "i < length lines")
    case False
    then show ?thesis
      by (intro exI [of _ "Inr []"]) (simp add: parse_loop_done)
  next
    case True
    from loop_body_uniform [of lines i] obtain r0 j where
      body: "\<And>p. (case r0 of
           Inl e \<Rightarrow> loop_body lines i p = Inl e
         | Inr ns \<Rightarrow> (\<exists>p1. loop_body lines i p = Inr (j, p1) \<and> rules p1 = rules p @ ns \<and>
                          (layer_table (layers p) \<longrightarrow> layer_table (layers p1))))"
      by blast
    show ?thesis
    proof (cases r0)
      case (Inl e)
      with body have "\<And>p. parse_loop lines i p = Inl e"
        using True by (simp add: parse_loop_raises)
      then show ?thesis
        by (intro exI [of _ "Inl e"]) simp
    next
      case (Inr ns)
      with body have step: "\<And>p. \<exists>p1. loop_body lines i p = Inr (j, p1) \<and>
          rules p1 = rules p @ ns \<and> (layer_table (layers p) \<longrightarrow> layer_table (layers p1))"
        by simp
      then obtain q1 where "loop_body lines i init_parser = Inr (j, q1)"
        by blast
      then have "i < j"
        by (rule loop_body_advances)
      with True have "length lines - j < length lines - i"
        by simp
      from less [OF this] obtain r1 where
        rest: "\<And>p. (case r1 of
             Inl e \<Rightarrow> parse_loop lines j p = Inl e
           | Inr ms \<Rightarrow> (\<exists>p'. parse_loop lines j p = Inr p' \<and> rules p' = rules p @ ms \<and>
                            (layer_table (layers p) \<longrightarrow> layer_table (layers p'))))"
        by blast
      show ?thesis
      proof (cases r1)
        case (Inl e)
        have "parse_loop lines i p = Inl e" for p
        proof -
          from step obtain p1 where "loop_body lines i p = Inr (j, p1)"
            by blast
          with True have "parse_loop lines i p = parse_loop lines j p1"
            by (rule parse_loop_step)
          with rest [of p1] Inl show ?thesis
            by simp
        qed
        then show ?thesis
          by (intro exI [of _ "Inl e"]) simp
      next
        case (Inr ms)
        have "\<exists>p'. parse_loop lines i p = Inr p' \<and> rules p' = rules p @ (ns @ ms) \<and>
            (layer_table (layers p) \<longrightarrow> layer_table (layers p'))" for p
        proof -
          from step obtain p1 where p1: "loop_body lines i p = Inr (j, p1)"
              "rules p1 = rules p @ ns" "layer_table (layers p) \<longrightarrow> layer_table (layers p1)"
            by blast
          from True p1(1) have "parse_loop lines i p = parse_loop lines j p1"
            by (rule parse_loop_step)
          moreover from rest [of p1] Inr obtain p' where "parse_loop lines j p1 = Inr p'"
              "rules p' = rules p1 @ ms" "layer_table (layers p1) \<longrightarrow> layer_table (layers p')"
            by auto
          ultimately show ?thesis
            using p1 by simp
        qed
        then show ?thesis
          by (intro exI [of _ "Inr (ns @ ms)"]) simp
      qed
    qed
  qed
qed

lemma parse_file_layer_table: "parse_file content = Inr p \<Longrightarrow> layer_table (layers p)"
proof -
  assume a: "parse_file content = Inr p"
  let ?lines = "split_chr (CHR 0x0A) (strip_comments content)"
  from parse_loop_uniform [of ?lines 0] obtain r where
    r: "\<And>p. (case r of
         Inl e \<Rightarrow> parse_loop ?lines 0 p = Inl e
       | Inr ns \<Rightarrow> (\<exists>p'. parse_loop ?lines 0 p = Inr p' \<and> rules p' = rules p @ ns \<and>
                        (layer_table (layers p) \<longrightarrow> layer_table (layers p'))))"
    by blast
  have "layer_table (layers init_parser)"
    by (simp add: init_parser_def layer_table_def)
  with r [of init_parser] a show ?thesis
    by (cases r) (auto simp: parse_file_def)
qed

text \<open>
  C1. The rules are parsed and rendered in the order of the statements of the input. When the
  loop from position \<open>i\<close> returns, either \<open>i\<close> is past the last line and nothing changed,
  or the pass at \<open>i\<close> handled the statement there: it moved to a later position \<open>j\<close>,
  left the rules already held in place and put the nodes of that statement, at most one,
  right after them; the loop from \<open>j\<close> then put the nodes of all later statements after
  those. Which nodes a statement yields depends on the text alone, not on the layer table or
  the rules held so far. A layer declaration yields no node and moves to the next line. The
  rule section is its banner followed by the rendering of each rule in the order of the
  sequence: after the rules held before come the nodes of the statement at \<open>i\<close>, then those
  of the later statements.
\<close>

theorem rule_order_preserved:
  assumes "parse_loop lines i p = Inr p'"
  shows "(\<not> i < length lines \<longrightarrow> p' = p) \<and>
         (i < length lines \<longrightarrow>
            (\<exists>j p1 first rest.
               loop_body lines i p = Inr (j, p1) \<and> i < j \<and> parse_loop lines j p1 = Inr p' \<and>
               length first \<le> 1 \<and>
               rules p1 = rules p @ first \<and>
               rules p' = rules p1 @ rest \<and>
               rules p' = rules p @ first @ rest \<and>
               (\<forall>q. \<exists>q1. loop_body lines i q = Inr (j, q1) \<and> rules q1 = rules q @ first) \<and>
               (\<forall>q. \<exists>q'. parse_loop lines j q = Inr q' \<and> rules q' = rules q @ rest) \<and>
               (startswith ''LAYER '' (strip (lines ! i)) \<longrightarrow> first = [] \<and> j = i + 1) \<and>
               generate_rules (rules p') =
                 generate_rules (rules p) @ concat (map (\<lambda>r. NL @ to_pxl r @ NL) first)
                   @ concat (map (\<lambda>r. NL @ to_pxl r @ NL) rest))) \<and>
         (\<exists>new. rules p' = rules p @ new \<and>
            (\<forall>q. \<exists>q'. parse_loop lines i q = Inr q' \<and> rules q' = rules q @ new) \<and>
            generate_rules (rules p') =
              generate_rules (rules p) @ concat (map (\<lambda>r. NL @ to_pxl r @ NL) new)) \<and>
         generate_rules (rules p') =
           BAR @ NL @ ''// DRC RULES'' @ NL @ BAR @ NL @
           concat (map (\<lambda>r. NL @ to_pxl r @ NL) (rules p'))"
proof (intro conjI impI)
  assume "\<not> i < length lines"
  with assms show "p' = p"
    by (simp add: parse_loop_done)
next
  assume True: "i < length lines"
  from loop_body_uniform [of lines i] obtain r0 j where
    body: "\<And>p. (case r0 of
         Inl e \<Rightarrow> loop_body lines i p = Inl e
       | Inr ns \<Rightarrow> (\<exists>p1. loop_body lines i p = Inr (j, p1) \<and> rules p1 = rules p @ ns \<and>
                        (layer_table (layers p) \<longrightarrow> layer_table (layers p1))))"
    and len: "\<forall>ns. r0 = Inr ns \<longrightarrow> length ns \<le> 1"
    by blast
  have "\<exists>first. r0 = Inr first"
  proof (cases r0)
    case (Inl e)
    with body [of p] True have "parse_loop lines i p = Inl e"
      by (simp add: parse_loop_raises)
    with assms show ?thesis
      by simp
  next
    case (Inr ns)
    then show ?thesis
      by simp
  qed
  then obtain first where first: "r0 = Inr first"
    by blast
  with len have l1: "length first \<le> 1"
    by simp
  from first body have step: "\<And>q. \<exists>q1. loop_body lines i q = Inr (j, q1) \<and>
      rules q1 = rules q @ first"
    by auto
  then obtain p1 where p1: "loop_body lines i p = Inr (j, p1)" "rules p1 = rules p @ first"
    by blast
  from p1(1) have adv: "i < j"
    by (rule loop_body_advances)
  from True p1(1) assms have cont: "parse_loop lines j p1 = Inr p'"
    by (simp add: parse_loop_step)
  from parse_loop_uniform [of lines j] obtain r1 where
    r1: "\<And>p. (case r1 of
         Inl e \<Rightarrow> parse_loop lines j p = Inl e
       | Inr ns \<Rightarrow> (\<exists>p'. parse_loop lines j p = Inr p' \<and> rules p' = rules p @ ns \<and>
                        (layer_table (layers p) \<longrightarrow> layer_table (layers p'))))"
    by blast
  from r1 [of p1] cont obtain rest where rest: "r1 = Inr rest"
    by (cases r1) auto
  with r1 have tail: "\<And>q. \<exists>q'. parse_loop lines j q = Inr q' \<and> rules q' = rules q @ rest"
    by auto
  from tail [of p1] cont have e1: "rules p' = rules p1 @ rest"
    by simp
  with p1(2) have e2: "rules p' = rules p @ first @ rest"
    by simp
  have lay: "startswith ''LAYER '' (strip (lines ! i)) \<longrightarrow> first = [] \<and> j = i + 1"
  proof
    assume h: "startswith ''LAYER '' (strip (lines ! i))"
    then have "strip (lines ! i) \<noteq> []" "\<not> startswith ''//'' (strip (lines ! i))"
      by (cases "strip (lines ! i)"; simp)+
    with h have "loop_body lines i p =
        (case parse_layer (strip (lines ! i)) p of
           Inl e \<Rightarrow> Inl e | Inr p' \<Rightarrow> Inr (i + 1, p'))"
      by (simp add: loop_body_def Let_def)
    with p1(1) have "j = i + 1 \<and> parse_layer (strip (lines ! i)) p = Inr p1"
      by (cases "parse_layer (strip (lines ! i)) p") auto
    with p1(2) parse_layer_rules [of "strip (lines ! i)" p p1]
    show "first = [] \<and> j = i + 1"
      by simp
  qed
  from e2 have gen: "generate_rules (rules p') =
      generate_rules (rules p) @ concat (map (\<lambda>r. NL @ to_pxl r @ NL) first)
        @ concat (map (\<lambda>r. NL @ to_pxl r @ NL) rest)"
    by (simp add: generate_rules_text)
  from p1 adv cont l1 e1 e2 step tail lay gen
  show "\<exists>j p1 first rest.
      loop_body lines i p = Inr (j, p1) \<and> i < j \<and> parse_loop lines j p1 = Inr p' \<and>
      length first \<le> 1 \<and>
      rules p1 = rules p @ first \<and>
      rules p' = rules p1 @ rest \<and>
      rules p' = rules p @ first @ rest \<and>
      (\<forall>q. \<exists>q1. loop_body lines i q = Inr (j, q1) \<and> rules q1 = rules q @ first) \<and>
      (\<forall>q. \<exists>q'. parse_loop lines j q = Inr q' \<and> rules q' = rules q @ rest) \<and>
      (startswith ''LAYER '' (strip (lines ! i)) \<longrightarrow> first = [] \<and> j = i + 1) \<and>
      generate_rules (rules p') =
        generate_rules (rules p) @ concat (map (\<lambda>r. NL @ to_pxl r @ NL) first)
          @ concat (map (\<lambda>r. NL @ to_pxl r @ NL) rest)"
    by (intro exI [of _ j] exI [of _ p1] exI [of _ first] exI [of _ rest]) blast
next
  from parse_loop_uniform [of lines i] obtain r where
    r: "\<And>p. (case r of
         Inl e \<Rightarrow> parse_loop lines i p = Inl e
       | Inr ns \<Rightarrow> (\<exists>p'. parse_loop lines i p = Inr p' \<and> rules p' = rules p @ ns \<and>
                        (layer_table (layers p) \<longrightarrow> layer_table (layers p'))))"
    by blast
  from r [of p] assms obtain new where new: "r = Inr new"
    by (cases r) auto
  with r [of p] assms have a: "rules p' = rules p @ new"
    by auto
  have b: "\<forall>q. \<exists>q'. parse_loop lines i q = Inr q' \<and> rules q' = rules q @ new"
  proof
    fix q
    from r [of q] new show "\<exists>q'. parse_loop lines i q = Inr q' \<and> rules q' = rules q @ new"
      by auto
  qed
  from a have c: "generate_rules (rules p') =
      generate_rules (rules p) @ concat (map (\<lambda>r. NL @ to_pxl r @ NL) new)"
    by (simp add: generate_rules_text)
  from a b c show "\<exists>new. rules p' = rules p @ new \<and>
            (\<forall>q. \<exists>q'. parse_loop lines i q = Inr q' \<and> rules q' = rules q @ new) \<and>
            generate_rules (rules p') =
              generate_rules (rules p) @ concat (map (\<lambda>r. NL @ to_pxl r @ NL) new)"
    by blast
next
  show "generate_rules (rules p') =
           BAR @ NL @ ''// DRC RULES'' @ NL @ BAR @ NL @
           concat (map (\<lambda>r. NL @ to_pxl r @ NL) (rules p'))"
    by (rule generate_rules_text)
qed

theorem rule_order_preserved_witness:
  "parse_loop [''A = AND X Y'', ''LAYER M1 10'', ''W1 { WIDTH M1 < 0.5 }'', ''LAYER M2 20'',
               ''B = OR A M1''] 0 init_parser
     = Inr \<lparr>layers = [(''M1'', \<lparr>name = ''M1'', gds_layer = 10, gds_datatype = 0\<rparr>),
                      (''M2'', \<lparr>name = ''M2'', gds_layer = 20, gds_datatype = 0\<rparr>)],
            rules = [BooleanOp ''A'' ''AND'' ''X'' (Some ''Y'') None,
                     WidthCheck ''W1'' ''M1'' ''<'' (Fin 1 2) None,
                     BooleanOp ''B'' ''OR'' ''A'' (Some ''M1'') None],
            current_rule_name = Some ''W1''\<rparr> \<and>
   loop_body [''A = AND X Y'', ''LAYER M1 10'', ''W1 { WIDTH M1 < 0.5 }'', ''LAYER M2 20'',
              ''B = OR A M1''] 0 init_parser
     = Inr (1, \<lparr>layers = [], rules = [BooleanOp ''A'' ''AND'' ''X'' (Some ''Y'') None],
                current_rule_name = None\<rparr>) \<and>
   (\<exists>q'. parse_loop [''A = AND X Y'', ''LAYER M1 10'', ''W1 { WIDTH M1 < 0.5 }'',
                      ''LAYER M2 20'', ''B = OR A M1''] 1 init_parser = Inr q' \<and>
         rules q' = [WidthCheck ''W1'' ''M1'' ''<'' (Fin 1 2) None,
                     BooleanOp ''B'' ''OR'' ''A'' (Some ''M1'') None]) \<and>
   generate_rules [BooleanOp ''A'' ''AND'' ''X'' (Some ''Y'') None,
                   WidthCheck ''W1'' ''M1'' ''<'' (Fin 1 2) None,
                   BooleanOp ''B'' ''OR'' ''A'' (Some ''M1'') None]
     = generate_rules [] @
       (NL @ to_pxl (BooleanOp ''A'' ''AND'' ''X'' (Some ''Y'') None) @ NL) @
       (NL @ to_pxl (WidthCheck ''W1'' ''M1'' ''<'' (Fin 1 2) None) @ NL) @
       (NL @ to_pxl (BooleanOp ''B'' ''OR'' ''A'' (Some ''M1'') None) @ NL) \<and>
   generate_rules [BooleanOp ''A'' ''AND'' ''X'' (Some ''Y'') None,
                   WidthCheck ''W1'' ''M1'' ''<'' (Fin 1 2) None,
                   BooleanOp ''B'' ''OR'' ''A'' (Some ''M1'') None]
     = BAR @ NL @ ''// DRC RULES'' @ NL @ BAR @ NL @
       NL @ to_pxl (BooleanOp ''A'' ''AND'' ''X'' (Some ''Y'') None) @ NL @
       NL @ to_pxl (WidthCheck ''W1'' ''M1'' ''<'' (Fin 1 2) None) @ NL @
       NL @ to_pxl (BooleanOp ''B'' ''OR'' ''A'' (Some ''M1'') None) @ NL \<and>
   startswith ''LAYER '' (strip ([''A = AND X Y'', ''LAYER M1 10'', ''W1 { WIDTH M1 < 0.5 }'',
                                  ''LAYER M2 20'', ''B = OR A M1''] ! 1)) \<and>
   (\<exists>q1. loop_body [''A = AND X Y'', ''LAYER M1 10'', ''W1 { WIDTH M1 < 0.5 }'', ''LAYER M2 20'',
                      ''B = OR A M1''] 1 init_parser = Inr (2, q1) \<and>
         rules q1 = rules init_parser)"
proof -
  let ?lines = "[''A = AND X Y'', ''LAYER M1 10'', ''W1 { WIDTH M1 < 0.5 }'', ''LAYER M2 20'',
                 ''B = OR A M1'']"
  let ?A = "BooleanOp ''A'' ''AND'' ''X'' (Some ''Y'') None"
  let ?W = "WidthCheck ''W1'' ''M1'' ''<'' (Fin 1 2) None"
  let ?B = "BooleanOp ''B'' ''OR'' ''A'' (Some ''M1'') None"
  let ?ls = "[(''M1'', \<lparr>name = ''M1'', gds_layer = 10, gds_datatype = 0\<rparr>),
              (''M2'', \<lparr>name = ''M2'', gds_layer = 20, gds_datatype = 0\<rparr>)]"
  let ?p = "\<lparr>layers = ?ls, rules = [?A, ?W, ?B], current_rule_name = Some ''W1''\<rparr>"
  let ?p1 = "\<lparr>layers = [], rules = [?A], current_rule_name = None\<rparr>"
  have h: "parse_loop ?lines 0 init_parser = Inr ?p"
    by code_simp
  have b0: "loop_body ?lines 0 init_parser = Inr (1, ?p1)"
    by code_simp
  have l0: "(0::nat) < length ?lines"
    by simp
  from rule_order_preserved [OF h] l0 obtain j p1 first rest where
      s: "loop_body ?lines 0 init_parser = Inr (j, p1)"
    and f: "rules p1 = rules init_parser @ first"
    and r: "rules ?p = rules p1 @ rest"
    and t: "\<forall>q. \<exists>q'. parse_loop ?lines j q = Inr q' \<and> rules q' = rules q @ rest"
    and g: "generate_rules (rules ?p) =
        generate_rules (rules init_parser) @ concat (map (\<lambda>r. NL @ to_pxl r @ NL) first)
          @ concat (map (\<lambda>r. NL @ to_pxl r @ NL) rest)"
    by blast
  from s b0 have j: "j = 1" and p1: "p1 = ?p1"
    by simp_all
  from f p1 have first: "first = [?A]"
    by (simp add: init_parser_def)
  from r p1 have rest: "rest = [?W, ?B]"
    by simp
  from t [rule_format, of init_parser] j rest
  have tail: "\<exists>q'. parse_loop ?lines 1 init_parser = Inr q' \<and> rules q' = [?W, ?B]"
    by (simp add: init_parser_def)
  from g first rest have gen: "generate_rules [?A, ?W, ?B] =
      generate_rules [] @ (NL @ to_pxl ?A @ NL) @ (NL @ to_pxl ?W @ NL) @ (NL @ to_pxl ?B @ NL)"
    by (simp add: init_parser_def del: to_pxl.simps)
  from rule_order_preserved [OF h] have "generate_rules (rules ?p) =
      BAR @ NL @ ''// DRC RULES'' @ NL @ BAR @ NL @
      concat (map (\<lambda>r. NL @ to_pxl r @ NL) (rules ?p))"
    by blast
  then have rendered: "generate_rules [?A, ?W, ?B] =
       BAR @ NL @ ''// DRC RULES'' @ NL @ BAR @ NL @
       NL @ to_pxl ?A @ NL @ NL @ to_pxl ?W @ NL @ NL @ to_pxl ?B @ NL"
    by (simp del: to_pxl.simps)
  have l: "(1::nat) < length ?lines \<and> startswith ''LAYER '' (strip (?lines ! 1))"
    by code_simp
  have h1: "parse_loop ?lines 1 init_parser
      = Inr \<lparr>layers = ?ls, rules = [?W, ?B], current_rule_name = Some ''W1''\<rparr>"
    by code_simp
  from rule_order_preserved [OF h1] l
  have layer: "\<exists>q1. loop_body ?lines 1 init_parser = Inr (2, q1) \<and> rules q1 = rules init_parser"
    by auto
  from h b0 tail gen rendered l layer show ?thesis
    by blast
qed

end
